theory Spec2Isabelle
  imports Complex_Main "HOL-Library.Sublist"
begin

text \<open>
  A model of the core of clawlite: the context guard, the turn orchestrator with its
  collaborators, and the execution lane. Each definition of the first six sections
  follows one function of the source and keeps its name. The calls of the orchestrator
  to its collaborators (providers, tools, the session store, the output callback) are
  explicit: a state of the outside world is passed through the calls of providers and
  tools, and what is sent to the session store and to the output is recorded as a list
  of events. The properties come after the definitions.
\<close>

section \<open>Data model (src/llm/types.ts)\<close>

text \<open>
  A message has one of four roles. An assistant message may carry tool invocation
  requests, a tool message names the request it answers. Optional fields of the
  TypeScript interfaces are \<open>option\<close> values: \<open>None\<close> is \<open>undefined\<close>.
  The nested object \<open>function: {name, arguments}\<close> of a tool call is flattened into
  the fields \<open>tc_name\<close> and \<open>tc_arguments\<close>. Strings are lists of characters, one
  \<open>char\<close> per code unit of the JavaScript string.
\<close>

datatype Role = System | User | Assistant | Tool

record ToolCall =
  tc_id :: string
  tc_name :: string
  tc_arguments :: string

record Message =
  role :: Role
  content :: string
  tool_calls :: "ToolCall list option"
  tool_call_id :: "string option"

text \<open>
  A tool descriptor as it is sent to the provider. The orchestrator only passes
  descriptors through, so the parameter schema is kept as a list of
  (property, type, description) triples and the list of required properties.
\<close>

record ToolDef =
  def_name :: string
  def_description :: string
  def_properties :: "(string \<times> string \<times> string) list"
  def_required :: "string list"

section \<open>Context guard (src/context.ts)\<close>

text \<open>
  JavaScript numbers are modelled as real numbers: \<open>estimateTokens\<close> returns a number,
  and the budget is the product \<open>maxTokens * threshold\<close>.
\<close>

record ContextGuard =
  maxTokens :: real
  threshold :: real

text \<open>\<open>Array.prototype.join\<close> on strings.\<close>

fun join :: "string \<Rightarrow> string list \<Rightarrow> string" where
  "join sep [] = []"
| "join sep [x] = x"
| "join sep (x # y # ys) = x @ sep @ join sep (y # ys)"

text \<open>
  \<open>truncate(text, max)\<close>: the text itself when it has at most \<open>max\<close> characters,
  otherwise its first \<open>max\<close> characters followed by three dots.
\<close>

definition truncateText :: "string \<Rightarrow> nat \<Rightarrow> string" where
  "truncateText text mx = (if length text \<le> mx then text else take mx text @ ''...'')"

text \<open>
  \<open>estimateTotal\<close>: the two nested loops that add up the estimate of every content
  string and of every serialized argument payload. \<open>msg.content || ""\<close> is the content
  itself, as the content is always a string.
\<close>

fun estimateCalls :: "(string \<Rightarrow> real) \<Rightarrow> ToolCall list \<Rightarrow> real \<Rightarrow> real" where
  "estimateCalls est [] total' = total'"
| "estimateCalls est (tc # tcs) total' = estimateCalls est tcs (total' + est (tc_arguments tc))"

fun estimateLoop :: "(string \<Rightarrow> real) \<Rightarrow> Message list \<Rightarrow> real \<Rightarrow> real" where
  "estimateLoop est [] total' = total'"
| "estimateLoop est (msg # msgs) total' =
     (let total1 = total' + est (content msg);
          total2 = (case tool_calls msg of
                      Some tcs \<Rightarrow> estimateCalls est tcs total1
                    | None \<Rightarrow> total1)
      in estimateLoop est msgs total2)"

definition estimateTotal :: "(string \<Rightarrow> real) \<Rightarrow> Message list \<Rightarrow> real" where
  "estimateTotal est messages = estimateLoop est messages 0"

definition needsCompaction :: "ContextGuard \<Rightarrow> Message list \<Rightarrow> (string \<Rightarrow> real) \<Rightarrow> bool" where
  "needsCompaction g messages est =
     (let totalTokens = estimateTotal est messages
      in totalTokens > maxTokens g * threshold g)"

text \<open>
  The loop of \<open>compact\<close> that builds \<open>summaryParts\<close>: one pass over the messages to
  summarise, pushing at most one line per message. \<open>if (msg.tool_calls)\<close> tests that
  the field is present: an array is truthy in JavaScript even when it is empty.
\<close>

fun summaryLoop :: "Message list \<Rightarrow> string list \<Rightarrow> string list" where
  "summaryLoop [] summaryParts = summaryParts"
| "summaryLoop (msg # rest) summaryParts =
     summaryLoop rest
       (if role msg = User then
          summaryParts @ [''User asked: '' @ truncateText (content msg) 100]
        else if role msg = Assistant then
          (case tool_calls msg of
             Some tcs \<Rightarrow>
               summaryParts @ [''Assistant used tools: '' @ join '', '' (map tc_name tcs)]
           | None \<Rightarrow>
               summaryParts @ [''Assistant: '' @ truncateText (content msg) 100])
        else if role msg = Tool then
          summaryParts @ [''Tool result: '' @ truncateText (content msg) 60]
        else summaryParts)"

definition summaryMessage :: "string list \<Rightarrow> Message" where
  "summaryMessage summaryParts =
     \<lparr> role = User,
       content = ''[Context compacted. Summary of earlier conversation:'' @ [CHR 0x0A]
                 @ join [CHR 0x0A] summaryParts
                 @ [CHR 0x0A] @ '']'' @ [CHR 0x0A] @ ''Continue from here.'',
       tool_calls = None,
       tool_call_id = None \<rparr>"

text \<open>
  \<open>compact\<close>. \<open>messages[0]?.role === "system"\<close> is false on the empty array;
  \<open>slice(0, -keep)\<close> is \<open>take (n - keep)\<close> and \<open>slice(-keep)\<close> is \<open>drop (n - keep)\<close>,
  with the subtraction stopping at zero as the clamped index of \<open>slice\<close> does. The
  provider argument of the source is only used for the console line, which is
  \<open>compactLog\<close> below. The constant is \<open>compact'\<close>, as \<open>compact\<close> is a constant of the
  library.
\<close>

definition leadingSystem :: "Message list \<Rightarrow> Message option" where
  "leadingSystem messages =
     (case messages of
        [] \<Rightarrow> None
      | m # _ \<Rightarrow> if role m = System then Some m else None)"

definition nonSystem :: "Message list \<Rightarrow> Message list" where
  "nonSystem messages =
     (case leadingSystem messages of Some _ \<Rightarrow> drop 1 messages | None \<Rightarrow> messages)"

definition toSummarise :: "Message list \<Rightarrow> Message list" where
  "toSummarise messages = take (length (nonSystem messages) - 4) (nonSystem messages)"

definition recent :: "Message list \<Rightarrow> Message list" where
  "recent messages = drop (length (nonSystem messages) - 4) (nonSystem messages)"

definition compact' :: "Message list \<Rightarrow> Message list" where
  "compact' messages =
     (if length messages \<le> 4 then messages
      else if length (toSummarise messages) = 0 then messages
      else
        (case leadingSystem messages of Some s \<Rightarrow> [s] | None \<Rightarrow> [])
        @ [summaryMessage (summaryLoop (toSummarise messages) [])]
        @ recent messages)"

text \<open>
  The numbers of the console line that \<open>compact\<close> prints when it replaces the
  conversation: estimated tokens before and after, message counts before and after.
  Nothing is printed on the two early returns.
\<close>

definition compactLog :: "Message list \<Rightarrow> (string \<Rightarrow> real) \<Rightarrow> (real \<times> real \<times> nat \<times> nat) option" where
  "compactLog messages est =
     (if length messages \<le> 4 then None
      else if length (toSummarise messages) = 0 then None
      else Some (estimateTotal est messages, estimateTotal est (compact' messages),
                 length messages, length (compact' messages)))"

section \<open>Skill loader (src/tools/skills.ts)\<close>

text \<open>
  Only the selection of skills is modelled; the skills themselves are the list that
  \<open>load\<close> read from disk. \<open>toLowerCase\<close> maps the ASCII capitals and leaves every
  other code unit as it is.
\<close>

record Skill =
  skill_name :: string
  skill_trigger :: "string option"
  skill_content :: string
  skill_filePath :: string

definition lowerChar :: "char \<Rightarrow> char" where
  "lowerChar c =
     (let n = (of_char c :: nat)
      in if 65 \<le> n \<and> n \<le> 90 then char_of (n + 32) else c)"

definition toLowerCase :: "string \<Rightarrow> string" where
  "toLowerCase s = map lowerChar s"

fun startsWith :: "string \<Rightarrow> string \<Rightarrow> bool" where
  "startsWith s [] = True"
| "startsWith [] (p # ps) = False"
| "startsWith (c # cs) (p # ps) = (c = p \<and> startsWith cs ps)"

text \<open>\<open>String.prototype.includes\<close>: the search string occurs at some position.\<close>

fun includes_str :: "string \<Rightarrow> string \<Rightarrow> bool" where
  "includes_str [] sub = (sub = [])"
| "includes_str (c # cs) sub = (startsWith (c # cs) sub \<or> includes_str cs sub)"

text \<open>
  \<open>getRelevant\<close>: \<open>!skill.trigger\<close> holds for a missing trigger and for the empty
  string.
\<close>

definition getRelevant :: "Skill list \<Rightarrow> string \<Rightarrow> Skill list" where
  "getRelevant skills userMessage =
     (let lower = toLowerCase userMessage
      in filter (\<lambda>skill.
           (case skill_trigger skill of
              None \<Rightarrow> True
            | Some t \<Rightarrow> if t = [] then True else includes_str lower (toLowerCase t)))
         skills)"

definition buildPrompt :: "Skill list \<Rightarrow> string \<Rightarrow> string" where
  "buildPrompt skills userMessage =
     (let relevant = getRelevant skills userMessage
      in if length relevant = 0 then []
         else
           let parts = map (\<lambda>s. ''[Skill: '' @ skill_name s @ '']'' @ [CHR 0x0A] @ skill_content s)
                           relevant
           in [CHR 0x0A, CHR 0x0A] @ join [CHR 0x0A, CHR 0x0A] parts)"

section \<open>Providers, tools and the registry (src/llm/types.ts, src/tools)\<close>

text \<open>
  Providers and tools are external collaborators. Their calls read and change a state
  \<open>'w\<close> of the outside world (the model server, the file system, the user at the
  terminal), so that two calls with the same arguments may answer differently.
  \<open>chat\<close> either fails, with the text that the thrown value prints as, or returns an
  assistant message. \<open>execute\<close> returns a result, as its interface declares; the
  orchestrator has no handler around it. The parsed arguments are values of a type
  \<open>'j\<close>. The interface \<open>Tool\<close> is the record \<open>ToolImpl\<close>, as \<open>Tool\<close> is a role.
\<close>

record 'w LLMProvider =
  provider_name :: string
  chat :: "Message list \<Rightarrow> ToolDef list \<Rightarrow> 'w \<Rightarrow> (string + Message) \<times> 'w"
  estimateTokens :: "string \<Rightarrow> real"

record ToolResult =
  tr_output :: string
  tr_success :: bool

record ('w, 'j) ToolImpl =
  tool_name :: string
  tool_definition :: ToolDef
  execute :: "'j \<Rightarrow> 'w \<Rightarrow> ToolResult \<times> 'w"

text \<open>
  The registry is a JavaScript \<open>Map\<close>: it keeps the order of first insertion, and
  setting a key that is present replaces the value where it stands.
\<close>

type_synonym ('w, 'j) ToolRegistry = "(string \<times> ('w, 'j) ToolImpl) list"

fun mapSet :: "string \<Rightarrow> 'v \<Rightarrow> (string \<times> 'v) list \<Rightarrow> (string \<times> 'v) list" where
  "mapSet k v [] = [(k, v)]"
| "mapSet k v ((k', v') # kvs) = (if k' = k then (k, v) # kvs else (k', v') # mapSet k v kvs)"

definition register :: "('w, 'j) ToolImpl \<Rightarrow> ('w, 'j) ToolRegistry \<Rightarrow> ('w, 'j) ToolRegistry" where
  "register tool reg = mapSet (tool_name tool) tool reg"

definition get :: "('w, 'j) ToolRegistry \<Rightarrow> string \<Rightarrow> ('w, 'j) ToolImpl option" where
  "get reg name = map_of reg name"

text \<open>
  \<open>getDefinitions(names?)\<close>: with names, the descriptors of the names that are
  registered, in the order of the names; without, all descriptors in the order of the
  map.
\<close>

definition getDefinitions :: "('w, 'j) ToolRegistry \<Rightarrow> string list option \<Rightarrow> ToolDef list" where
  "getDefinitions reg names =
     (case names of
        Some ns \<Rightarrow> map tool_definition (concat (map (\<lambda>n. case get reg n of None \<Rightarrow> [] | Some t \<Rightarrow> [t]) ns))
      | None \<Rightarrow> map (\<lambda>(k, t). tool_definition t) reg)"

definition listNames :: "('w, 'j) ToolRegistry \<Rightarrow> string list" where
  "listNames reg = map fst reg"

section \<open>Turn orchestrator (src/agent.ts)\<close>

definition MAX_TURNS :: nat where
  "MAX_TURNS = 15"

definition SYSTEM_PROMPT :: string where
  "SYSTEM_PROMPT =
     ''You are a helpful coding assistant running locally. You have access to tools for shell commands and file operations.''
     @ [CHR 0x0A, CHR 0x0A]
     @ ''Rules:'' @ [CHR 0x0A]
     @ ''- Be concise. Short answers save context tokens.'' @ [CHR 0x0A]
     @ ''- Use tools when needed, don'' @ [CHR 0x27] @ ''t guess file contents.'' @ [CHR 0x0A]
     @ ''- One tool call at a time for reliability.'' @ [CHR 0x0A]
     @ ''- If a command fails, explain why and suggest alternatives.'' @ [CHR 0x0A]
     @ ''- Ask for clarification if the request is ambiguous.''"

text \<open>The decimal digits of a number, as a template literal prints it.\<close>

fun string_of_nat :: "nat \<Rightarrow> string" where
  "string_of_nat n =
     (if n < 10 then [char_of (48 + n)]
      else string_of_nat (n div 10) @ [char_of (48 + n mod 10)])"

declare string_of_nat.simps [simp del]

text \<open>
  Objects are compared by identity in \<open>activeProvider !== this.fallback\<close>, so the
  agent holds references to its providers: indices into a table of provider objects.
  The agent's fields \<open>session\<close>, \<open>lanes\<close> and \<open>onOutput\<close> are sinks of effects; what is
  sent to them is recorded in the host state below. The field \<open>context\<close> is \<open>guard\<close>
  here.
\<close>

type_synonym ref = nat

record ('w, 'j) Agent =
  provider :: ref
  fallback :: "ref option"
  tools :: "('w, 'j) ToolRegistry"
  guard :: ContextGuard
  skills :: "Skill list option"
  messages :: "Message list"

text \<open>
  What the agent runs in: the provider objects, and \<open>JSON.parse\<close>, which answers
  \<open>None\<close> where it throws.
\<close>

record ('w, 'j) Runtime =
  providerAt :: "ref \<Rightarrow> 'w LLMProvider"
  jsonParse :: "string \<Rightarrow> 'j option"

text \<open>
  The effects of a turn, in the order they happen: a notice sent to \<open>onOutput\<close>, the
  console line of a compaction, a message appended to the session store, a call of a
  provider's \<open>chat\<close> with the conversation it is given, and the execution of a tool
  (its name and its raw argument text).
\<close>

datatype Event =
    Notice string
  | ConsoleLog real real nat nat
  | SessionAppend Message
  | ChatCall ref "Message list"
  | ToolExecute string string

record 'w Host =
  world :: 'w
  events :: "Event list"

definition emit :: "Event \<Rightarrow> 'w Host \<Rightarrow> 'w Host" where
  "emit e h = h\<lparr>events := events h @ [e]\<rparr>"

text \<open>The constructor: the conversation starts with the system prompt.\<close>

definition newAgent ::
  "ref \<Rightarrow> ref option \<Rightarrow> ('w, 'j) ToolRegistry \<Rightarrow> ContextGuard \<Rightarrow> Skill list option
   \<Rightarrow> ('w, 'j) Agent" where
  "newAgent p fb reg g sk =
     \<lparr> provider = p, fallback = fb, tools = reg, guard = g, skills = sk,
       messages = [\<lparr> role = System, content = SYSTEM_PROMPT,
                     tool_calls = None, tool_call_id = None \<rparr>] \<rparr>"

text \<open>\<open>this.messages.push(m); this.session.append(m)\<close>.\<close>

definition pushAppend ::
  "Message \<Rightarrow> ('w, 'j) Agent \<times> 'w Host \<Rightarrow> ('w, 'j) Agent \<times> 'w Host" where
  "pushAppend m st =
     (case st of (a, h) \<Rightarrow> (a\<lparr>messages := messages a @ [m]\<rparr>, emit (SessionAppend m) h))"

text \<open>The start of a turn: the skill text is merged into the system message.\<close>

definition injectSkills :: "string \<Rightarrow> ('w, 'j) Agent \<Rightarrow> ('w, 'j) Agent" where
  "injectSkills userInput a =
     (case skills a of
        None \<Rightarrow> a
      | Some sk \<Rightarrow>
          let skillPrompt = buildPrompt sk userInput
          in if skillPrompt \<noteq> [] \<and> leadingSystem (messages a) \<noteq> None then
               a\<lparr>messages := (messages a)
                     [0 := \<lparr> role = System, content = SYSTEM_PROMPT @ skillPrompt,
                             tool_calls = None, tool_call_id = None \<rparr>]\<rparr>
             else a)"

text \<open>The context guard before each provider call.\<close>

definition guardContext ::
  "('w, 'j) Runtime \<Rightarrow> ref \<Rightarrow> ('w, 'j) Agent \<times> 'w Host \<Rightarrow> ('w, 'j) Agent \<times> 'w Host" where
  "guardContext rt activeProvider st =
     (case st of (a, h) \<Rightarrow>
        let est = estimateTokens (providerAt rt activeProvider)
        in if needsCompaction (guard a) (messages a) est then
             (a\<lparr>messages := compact' (messages a)\<rparr>,
              (case compactLog (messages a) est of
                 Some (before, after, n, n') \<Rightarrow> emit (ConsoleLog before after n n') h
               | None \<Rightarrow> h))
           else (a, h))"

text \<open>One call of \<open>chat\<close> on a provider object, recorded.\<close>

definition callChat ::
  "('w, 'j) Runtime \<Rightarrow> ref \<Rightarrow> Message list \<Rightarrow> ToolDef list \<Rightarrow> 'w Host
   \<Rightarrow> (string + Message) \<times> 'w Host" where
  "callChat rt r msgs toolDefs h =
     (case chat (providerAt rt r) msgs toolDefs (world h) of
        (res, w') \<Rightarrow> (res, emit (ChatCall r msgs) (h\<lparr>world := w'\<rparr>)))"

text \<open>
  The provider call with its fallback. The result is \<open>Inl\<close> of the text the turn
  returns, or \<open>Inr\<close> of the response and the provider that is active from now on.
\<close>

definition callWithFallback ::
  "('w, 'j) Runtime \<Rightarrow> ref \<Rightarrow> ('w, 'j) Agent \<Rightarrow> ToolDef list \<Rightarrow> 'w Host
   \<Rightarrow> (string + Message \<times> ref) \<times> 'w Host" where
  "callWithFallback rt activeProvider a toolDefs h =
     (case callChat rt activeProvider (messages a) toolDefs h of
        (Inr response, h1) \<Rightarrow> (Inr (response, activeProvider), h1)
      | (Inl e, h1) \<Rightarrow>
          (case fallback a of
             None \<Rightarrow> (Inl (''LLM error: '' @ e), h1)
           | Some fb \<Rightarrow>
               if activeProvider \<noteq> fb then
                 let h2 = emit (Notice (''  ['' @ provider_name (providerAt rt activeProvider)
                                         @ '' failed, falling back to ''
                                         @ provider_name (providerAt rt fb) @ '']'')) h1
                 in (case callChat rt fb (messages a) toolDefs h2 of
                       (Inr response, h3) \<Rightarrow> (Inr (response, fb), h3)
                     | (Inl e2, h3) \<Rightarrow>
                         (Inl (''Both providers failed. '' @ provider_name (providerAt rt fb)
                               @ '': '' @ e2), h3))
               else (Inl (''LLM error: '' @ e), h1)))"

text \<open>The loop over the tool calls of one response, one call at a time.\<close>

fun dispatchTools ::
  "('w, 'j) Runtime \<Rightarrow> ToolCall list \<Rightarrow> ('w, 'j) Agent \<times> 'w Host \<Rightarrow> ('w, 'j) Agent \<times> 'w Host" where
  "dispatchTools rt [] st = st"
| "dispatchTools rt (toolCall # rest) st =
     (case get (tools (fst st)) (tc_name toolCall) of
        None \<Rightarrow>
          let errResult = \<lparr> role = Tool,
                            content = ''Error: unknown tool '' @ [CHR 0x22] @ tc_name toolCall
                                      @ [CHR 0x22],
                            tool_calls = None, tool_call_id = Some (tc_id toolCall) \<rparr>
          in dispatchTools rt rest (pushAppend errResult st)
      | Some tool \<Rightarrow>
          (case jsonParse rt (tc_arguments toolCall) of
             None \<Rightarrow>
               let errResult = \<lparr> role = Tool,
                                 content = ''Error: invalid JSON in tool arguments: ''
                                           @ tc_arguments toolCall,
                                 tool_calls = None, tool_call_id = Some (tc_id toolCall) \<rparr>
               in dispatchTools rt rest (pushAppend errResult st)
           | Some args \<Rightarrow>
               (case st of (a, h) \<Rightarrow>
                  let h1 = emit (Notice (''  [tool: '' @ tc_name toolCall @ '']'')) h
                  in (case execute tool args (world h1) of
                        (result, w') \<Rightarrow>
                          let h2 = emit (ToolExecute (tc_name toolCall) (tc_arguments toolCall))
                                        (h1\<lparr>world := w'\<rparr>);
                              toolResult = \<lparr> role = Tool, content = tr_output result,
                                             tool_calls = None,
                                             tool_call_id = Some (tc_id toolCall) \<rparr>
                          in dispatchTools rt rest (pushAppend toolResult (a, h2))))))"

text \<open>
  The body of the \<open>while\<close> loop. \<open>Inl\<close> is a \<open>return\<close> with its text, \<open>Inr\<close> the
  provider that is active at the next iteration.
\<close>

definition turnStep ::
  "('w, 'j) Runtime \<Rightarrow> ref \<Rightarrow> ('w, 'j) Agent \<times> 'w Host
   \<Rightarrow> (string + ref) \<times> ('w, 'j) Agent \<times> 'w Host" where
  "turnStep rt activeProvider st =
     (case guardContext rt activeProvider st of (a1, h1) \<Rightarrow>
        let toolDefs = getDefinitions (tools a1) None
        in (case callWithFallback rt activeProvider a1 toolDefs h1 of
              (Inl err, h2) \<Rightarrow> (Inl err, a1, h2)
            | (Inr (response, active'), h2) \<Rightarrow>
                let st3 = pushAppend response (a1, h2)
                in (case tool_calls response of
                      None \<Rightarrow> (Inl (content response), st3)
                    | Some tcs \<Rightarrow>
                        if length tcs = 0 then (Inl (content response), st3)
                        else (Inr active', dispatchTools rt tcs st3))))"

text \<open>
  The \<open>while\<close> loop. The result carries the value of \<open>turns\<close> at the return next to
  the returned text.
\<close>

function turnLoop ::
  "('w, 'j) Runtime \<Rightarrow> nat \<Rightarrow> ref \<Rightarrow> ('w, 'j) Agent \<times> 'w Host
   \<Rightarrow> (string \<times> nat) \<times> ('w, 'j) Agent \<times> 'w Host" where
  "turnLoop rt turns activeProvider st =
     (if turns < MAX_TURNS then
        (case turnStep rt activeProvider st of
           (Inl reply, st') \<Rightarrow> ((reply, Suc turns), st')
         | (Inr active', st') \<Rightarrow> turnLoop rt (Suc turns) active' st')
      else
        ((''Reached maximum turns ('' @ string_of_nat MAX_TURNS
          @ ''). Last response may be incomplete.'', turns), st))"
  by pat_completeness auto
termination
  by (relation "measure (\<lambda>(rt, turns, activeProvider, st). MAX_TURNS - turns)") auto

declare turnLoop.simps [simp del]

text \<open>
  \<open>handleMessage\<close>: the task that the agent runs on its default lane. It returns the
  reply (with the number of loop iterations), the agent and the host after the turn.
\<close>

definition handleMessage ::
  "('w, 'j) Runtime \<Rightarrow> string \<Rightarrow> ('w, 'j) Agent \<times> 'w Host
   \<Rightarrow> (string \<times> nat) \<times> ('w, 'j) Agent \<times> 'w Host" where
  "handleMessage rt userInput st =
     (case st of (a, h) \<Rightarrow>
        let a1 = injectSkills userInput a;
            userMsg = \<lparr> role = User, content = userInput,
                        tool_calls = None, tool_call_id = None \<rparr>
        in turnLoop rt 0 (provider a1) (pushAppend userMsg (a1, h)))"

definition getMessageCount :: "('w, 'j) Agent \<Rightarrow> nat" where
  "getMessageCount a = length (messages a)"

definition getProvider :: "('w, 'j) Runtime \<Rightarrow> ('w, 'j) Agent \<Rightarrow> string" where
  "getProvider rt a = provider_name (providerAt rt (provider a))"

section \<open>Execution lane (src/lane.ts)\<close>

text \<open>
  JavaScript runs one piece of code at a time, up to its next \<open>await\<close>. The only
  \<open>await\<close> of \<open>process\<close> is the one on the task it has just started, so a lane is
  observed between two kinds of steps: a call of \<open>enqueue\<close>, and the settling of the
  promise that \<open>process\<close> is waiting for. Next to the fields \<open>queue\<close> and \<open>running\<close>
  of the class, the state holds the \<open>item\<close> that the suspended call of \<open>process\<close> is
  waiting for, and an execution log: a task is logged when \<open>item.task()\<close> is called
  and when its promise has settled (\<open>True\<close> for \<open>resolve\<close>, \<open>False\<close> for \<open>reject\<close>).
  Tasks are values of a type \<open>'t\<close>.
\<close>

datatype 't LaneEvent = Started 't | Settled 't bool

record 't Lane =
  queue :: "'t list"
  running :: bool
  awaiting :: "'t option"
  trace :: "'t LaneEvent list"

definition newLane :: "'t Lane" where
  "newLane = \<lparr> queue = [], running = False, awaiting = None, trace = [] \<rparr>"

text \<open>
  The \<open>while\<close> loop of \<open>process\<close> from its test: it takes the head of the queue,
  starts its task and suspends, or it leaves the loop and clears \<open>running\<close>.
\<close>

definition processLoop :: "'t Lane \<Rightarrow> 't Lane" where
  "processLoop l =
     (case queue l of
        [] \<Rightarrow> l\<lparr>running := False\<rparr>
      | item # rest \<Rightarrow>
          l\<lparr>queue := rest, awaiting := Some item, trace := trace l @ [Started item]\<rparr>)"

definition process :: "'t Lane \<Rightarrow> 't Lane" where
  "process l = (if running l then l else processLoop (l\<lparr>running := True\<rparr>))"

definition enqueue :: "'t \<Rightarrow> 't Lane \<Rightarrow> 't Lane" where
  "enqueue task l = process (l\<lparr>queue := queue l @ [task]\<rparr>)"

text \<open>
  The awaited promise settles: \<open>process\<close> resumes, resolves or rejects the item and
  goes back to the test of its loop. Nothing happens when no task is awaited.
\<close>

definition settle :: "bool \<Rightarrow> 't Lane \<Rightarrow> 't Lane" where
  "settle ok l =
     (case awaiting l of
        None \<Rightarrow> l
      | Some item \<Rightarrow> processLoop (l\<lparr>awaiting := None, trace := trace l @ [Settled item ok]\<rparr>))"

text \<open>The lane manager: a map from lane names to lanes, created on first use.\<close>

type_synonym 't LaneManager = "string \<Rightarrow> 't Lane option"

definition getLane :: "string \<Rightarrow> 't LaneManager \<Rightarrow> 't Lane" where
  "getLane name lanes = (case lanes name of None \<Rightarrow> newLane | Some l \<Rightarrow> l)"

definition runParallel :: "string \<Rightarrow> 't \<Rightarrow> 't LaneManager \<Rightarrow> 't LaneManager" where
  "runParallel laneName task lanes = lanes(laneName \<mapsto> enqueue task (getLane laneName lanes))"

definition run :: "'t \<Rightarrow> 't LaneManager \<Rightarrow> 't LaneManager" where
  "run task lanes = runParallel ''default'' task lanes"

text \<open>
  What happens to a lane manager: a task is enqueued on a key, or the task that a
  key's lane is waiting for settles.
\<close>

datatype 't LaneInput = Enqueue string 't | Settle string bool

fun laneStep :: "'t LaneManager \<Rightarrow> 't LaneInput \<Rightarrow> 't LaneManager" where
  "laneStep lanes (Enqueue k task) = runParallel k task lanes"
| "laneStep lanes (Settle k ok) =
     (case lanes k of None \<Rightarrow> lanes | Some l \<Rightarrow> lanes(k \<mapsto> settle ok l))"

definition laneRun :: "'t LaneInput list \<Rightarrow> 't LaneManager" where
  "laneRun inputs = foldl laneStep Map.empty inputs"

text \<open>Reading the inputs and the execution log.\<close>

fun enqueuedOn :: "string \<Rightarrow> 't LaneInput list \<Rightarrow> 't list" where
  "enqueuedOn k [] = []"
| "enqueuedOn k (Enqueue k' task # inputs) =
     (if k' = k then task # enqueuedOn k inputs else enqueuedOn k inputs)"
| "enqueuedOn k (Settle k' ok # inputs) = enqueuedOn k inputs"

fun startedTasks :: "'t LaneEvent list \<Rightarrow> 't list" where
  "startedTasks [] = []"
| "startedTasks (Started t # es) = t # startedTasks es"
| "startedTasks (Settled t ok # es) = startedTasks es"

fun settledTasks :: "'t LaneEvent list \<Rightarrow> 't list" where
  "settledTasks [] = []"
| "settledTasks (Started t # es) = settledTasks es"
| "settledTasks (Settled t ok # es) = t # settledTasks es"

text \<open>
  A log without overlap: every start is followed at once by the settling of the same
  task, but for the last start, whose task may still be running.
\<close>

fun serial :: "'t LaneEvent list \<Rightarrow> bool" where
  "serial [] = True"
| "serial [Started t] = True"
| "serial (Started t # Settled t' ok # es) = (t = t' \<and> serial es)"
| "serial es = False"

section \<open>Reference definitions and example inputs\<close>

text \<open>
  The digest of one replaced message, as lines: what the summary of a compaction holds
  for it. A message of role system has no line.
\<close>

definition digest :: "Message \<Rightarrow> string list" where
  "digest m =
     (case role m of
        User \<Rightarrow> [''User asked: '' @ truncateText (content m) 100]
      | Assistant \<Rightarrow>
          (case tool_calls m of
             Some tcs \<Rightarrow> [''Assistant used tools: '' @ join '', '' (map tc_name tcs)]
           | None \<Rightarrow> [''Assistant: '' @ truncateText (content m) 100])
      | Tool \<Rightarrow> [''Tool result: '' @ truncateText (content m) 60]
      | System \<Rightarrow> [])"

text \<open>
  The digest line and the output of a compaction read literally: the prefix followed by
  the first 100 (or 60) characters of the content, and nothing after them.
\<close>

definition digestClaimed :: "Message \<Rightarrow> string" where
  "digestClaimed m =
     (case role m of
        User \<Rightarrow> ''User asked: '' @ take 100 (content m)
      | Assistant \<Rightarrow>
          (case tool_calls m of
             Some tcs \<Rightarrow> ''Assistant used tools: '' @ join '', '' (map tc_name tcs)
           | None \<Rightarrow> ''Assistant: '' @ take 100 (content m))
      | Tool \<Rightarrow> ''Tool result: '' @ take 60 (content m)
      | System \<Rightarrow> [])"

definition compactClaimed :: "Message list \<Rightarrow> Message list" where
  "compactClaimed msgs =
     (case leadingSystem msgs of Some s \<Rightarrow> [s] | None \<Rightarrow> [])
     @ [summaryMessage (map digestClaimed (toSummarise msgs))]
     @ drop (length msgs - 4) msgs"

definition plain :: "Role \<Rightarrow> string \<Rightarrow> Message" where
  "plain r c = \<lparr> role = r, content = c, tool_calls = None, tool_call_id = None \<rparr>"

text \<open>A conversation whose first question has 101 characters.\<close>

definition longQuestion :: "Message list" where
  "longQuestion =
     [plain System ''be brief'', plain User (replicate 101 CHR ''a''), plain Assistant ''ok'',
      plain User ''b'', plain Assistant ''ok'', plain User ''c'']"

text \<open>A conversation of nine messages with two tool calls.\<close>

definition shellSession :: "Message list" where
  "shellSession =
     [plain System ''be brief'',
      plain User ''list files'',
      \<lparr> role = Assistant, content = [],
        tool_calls = Some [\<lparr> tc_id = ''call_1'', tc_name = ''shell'', tc_arguments = ''{}'' \<rparr>,
                           \<lparr> tc_id = ''call_2'', tc_name = ''read_file'', tc_arguments = ''{}'' \<rparr>],
        tool_call_id = None \<rparr>,
      \<lparr> role = Tool, content = ''a.txt'', tool_calls = None, tool_call_id = Some ''call_1'' \<rparr>,
      \<lparr> role = Tool, content = ''hello'', tool_calls = None, tool_call_id = Some ''call_2'' \<rparr>,
      plain Assistant ''Found a.txt'',
      plain User ''thanks'',
      plain Assistant ''ok'',
      plain User ''bye'']"

text \<open>The parts of what a turn returns: the reply, the iterations, the agent, the host.\<close>


abbreviation replyOf :: "(string \<times> nat) \<times> 'a \<times> 'h \<Rightarrow> string" where
  "replyOf r \<equiv> fst (fst r)"

abbreviation turnsOf :: "(string \<times> nat) \<times> 'a \<times> 'h \<Rightarrow> nat" where
  "turnsOf r \<equiv> snd (fst r)"

abbreviation agentOf :: "'r \<times> 'a \<times> 'h \<Rightarrow> 'a" where
  "agentOf r \<equiv> fst (snd r)"

abbreviation hostOf :: "'r \<times> 'a \<times> 'h \<Rightarrow> 'h" where
  "hostOf r \<equiv> snd (snd r)"


text \<open>
  A predicate on the state of a turn that every elementary step of the orchestrator
  keeps: appending a message, the context guard, a notice, a tool execution, a
  provider call.
\<close>

definition preserved ::
  "('w, 'j) Runtime \<Rightarrow> (('w, 'j) Agent \<times> 'w Host \<Rightarrow> bool) \<Rightarrow> bool" where
  "preserved rt I =
     ((\<forall>m a h. I (a, h) \<longrightarrow> I (pushAppend m (a, h)))
      \<and> (\<forall>r a h. I (a, h) \<longrightarrow> I (guardContext rt r (a, h)))
      \<and> (\<forall>s a h. I (a, h) \<longrightarrow> I (a, emit (Notice s) h))
      \<and> (\<forall>n args w a h. I (a, h) \<longrightarrow> I (a, emit (ToolExecute n args) (h\<lparr>world := w\<rparr>)))
      \<and> (\<forall>r w a h. I (a, h) \<longrightarrow> I (a, emit (ChatCall r (messages a)) (h\<lparr>world := w\<rparr>))))"

text \<open>
  Example collaborators. \<open>braceParse\<close> stands for \<open>JSON.parse\<close> on the examples: it
  accepts the texts that start with a brace. The examples use two argument texts, the
  empty object \<open>{}\<close> and the word \<open>oops\<close>; on both it answers as \<open>JSON.parse\<close> does.
  \<open>toolCaller\<close> is a provider that asks for the tool \<open>nonexistent\<close> at every call.
\<close>

definition braceParse :: "string \<Rightarrow> string option" where
  "braceParse s = (if startsWith s ''{'' then Some s else None)"



definition defaultGuard :: ContextGuard where
  "defaultGuard = \<lparr> maxTokens = 16384, threshold = 0.8 \<rparr>"

definition freshHost :: "unit Host" where
  "freshHost = \<lparr> world = (), events = [] \<rparr>"


text \<open>The messages appended to the session store, in order.\<close>

fun sessionLog :: "Event list \<Rightarrow> Message list" where
  "sessionLog [] = []"
| "sessionLog (SessionAppend m # es) = m # sessionLog es"
| "sessionLog (e # es) = sessionLog es"


text \<open>The provider of the first \<open>chat\<close> call among some events.\<close>

fun firstChat :: "Event list \<Rightarrow> ref option" where
  "firstChat [] = None"
| "firstChat (ChatCall r msgs # es) = Some r"
| "firstChat (e # es) = firstChat es"

text \<open>
  The iterations of the loop of one \<open>handleMessage\<close> call: \<open>reached rt u st0 turns p st\<close>
  holds when the call on input \<open>u\<close> in state \<open>st0\<close> comes to the test of its loop with
  the counter \<open>turns\<close>, the active provider \<open>p\<close> and the state \<open>st\<close>.
\<close>

inductive reached ::
  "('w, 'j) Runtime \<Rightarrow> string \<Rightarrow> ('w, 'j) Agent \<times> 'w Host \<Rightarrow> nat \<Rightarrow> ref
   \<Rightarrow> ('w, 'j) Agent \<times> 'w Host \<Rightarrow> bool"
  for rt :: "('w, 'j) Runtime" and userInput :: string and st0 :: "('w, 'j) Agent \<times> 'w Host"
  where
    start:
      "reached rt userInput st0 0 (provider (injectSkills userInput (fst st0)))
         (pushAppend \<lparr> role = User, content = userInput, tool_calls = None, tool_call_id = None \<rparr>
            (injectSkills userInput (fst st0), snd st0))"
  | continue:
      "reached rt userInput st0 turns p st \<Longrightarrow> turns < MAX_TURNS
       \<Longrightarrow> turnStep rt p st = (Inr p', st')
       \<Longrightarrow> reached rt userInput st0 (Suc turns) p' st'"

text \<open>Two providers that fail at every call, and an agent with a fallback.\<close>

definition failingPrimary :: "unit LLMProvider" where
  "failingPrimary =
     \<lparr> provider_name = ''ollama'',
       chat = (\<lambda>msgs defs w. (Inl ''Error: connection refused'', w)),
       estimateTokens = (\<lambda>s. 0) \<rparr>"

definition failingFallback :: "unit LLMProvider" where
  "failingFallback =
     \<lparr> provider_name = ''groq'',
       chat = (\<lambda>msgs defs w. (Inl ''Error: rate limit'', w)),
       estimateTokens = (\<lambda>s. 0) \<rparr>"

definition failRuntime :: "(unit, string) Runtime" where
  "failRuntime =
     \<lparr> providerAt = (\<lambda>r. if r = 0 then failingPrimary else failingFallback),
       jsonParse = braceParse \<rparr>"

definition fallbackAgent :: "(unit, string) Agent" where
  "fallbackAgent = newAgent 0 (Some 1) [] defaultGuard None"

text \<open>The configuration fields of an agent are those of \<open>a\<close>.\<close>

definition sameConfig :: "('w, 'j) Agent \<Rightarrow> ('w, 'j) Agent \<times> 'w Host \<Rightarrow> bool" where
  "sameConfig a st =
     (provider (fst st) = provider a \<and> fallback (fst st) = fallback a \<and> tools (fst st) = tools a
      \<and> guard (fst st) = guard a \<and> skills (fst st) = skills a)"


text \<open>A fallback that answers every call with the text \<open>hello\<close>.\<close>

definition answeringFallback :: "unit LLMProvider" where
  "answeringFallback =
     \<lparr> provider_name = ''groq'',
       chat = (\<lambda>msgs defs w. (Inr (plain Assistant ''hello''), w)),
       estimateTokens = (\<lambda>s. 0) \<rparr>"

definition fallbackRuntime :: "(unit, string) Runtime" where
  "fallbackRuntime =
     \<lparr> providerAt = (\<lambda>r. if r = 0 then failingPrimary else answeringFallback),
       jsonParse = braceParse \<rparr>"


text \<open>
  The two error results of the tool dispatch, and what it is for a message to answer an
  invocation request: a tool message that refers to the request, and that is the error
  result when the tool is not registered or its arguments do not parse.
\<close>

definition unknownToolMessage :: "ToolCall \<Rightarrow> Message" where
  "unknownToolMessage tc =
     \<lparr> role = Tool,
       content = ''Error: unknown tool '' @ [CHR 0x22] @ tc_name tc @ [CHR 0x22],
       tool_calls = None, tool_call_id = Some (tc_id tc) \<rparr>"

definition invalidJsonMessage :: "ToolCall \<Rightarrow> Message" where
  "invalidJsonMessage tc =
     \<lparr> role = Tool,
       content = ''Error: invalid JSON in tool arguments: '' @ tc_arguments tc,
       tool_calls = None, tool_call_id = Some (tc_id tc) \<rparr>"

definition answers ::
  "('w, 'j) Runtime \<Rightarrow> ('w, 'j) ToolRegistry \<Rightarrow> ToolCall \<Rightarrow> Message \<Rightarrow> bool" where
  "answers rt reg tc m =
     (role m = Tool \<and> tool_call_id m = Some (tc_id tc)
      \<and> (case get reg (tc_name tc) of
            None \<Rightarrow> m = unknownToolMessage tc
          | Some tool \<Rightarrow>
              (case jsonParse rt (tc_arguments tc) of
                 None \<Rightarrow> m = invalidJsonMessage tc
               | Some args \<Rightarrow> True)))"

text \<open>
  A scripted run: the provider first asks for an unknown tool, for a tool with an
  argument text that does not parse and for a tool with a good argument text, then it
  answers \<open>done\<close>. The world state counts the provider calls.
\<close>

definition threeCalls :: "ToolCall list" where
  "threeCalls =
     [\<lparr> tc_id = ''call_1'', tc_name = ''nonexistent'', tc_arguments = ''{}'' \<rparr>,
      \<lparr> tc_id = ''call_2'', tc_name = ''shell'', tc_arguments = ''oops'' \<rparr>,
      \<lparr> tc_id = ''call_3'', tc_name = ''shell'', tc_arguments = ''{}'' \<rparr>]"

definition toolRequest :: Message where
  "toolRequest =
     \<lparr> role = Assistant, content = [], tool_calls = Some threeCalls, tool_call_id = None \<rparr>"

definition scriptedProvider :: "nat LLMProvider" where
  "scriptedProvider =
     \<lparr> provider_name = ''scripted'',
       chat = (\<lambda>msgs defs w.
                 (if w = 0 then Inr toolRequest else Inr (plain Assistant ''done''), Suc w)),
       estimateTokens = (\<lambda>s. 0) \<rparr>"

definition shellStub :: "(nat, string) ToolImpl" where
  "shellStub =
     \<lparr> tool_name = ''shell'',
       tool_definition = \<lparr> def_name = ''shell'', def_description = ''Run a shell command.'',
                            def_properties = [(''command'', ''string'', ''The command'')],
                            def_required = [''command''] \<rparr>,
       execute = (\<lambda>args w. (\<lparr> tr_output = ''a.txt'', tr_success = True \<rparr>, w)) \<rparr>"

definition scriptedRuntime :: "(nat, string) Runtime" where
  "scriptedRuntime = \<lparr> providerAt = (\<lambda>r. scriptedProvider), jsonParse = braceParse \<rparr>"

definition scriptedAgent :: "(nat, string) Agent" where
  "scriptedAgent = newAgent 0 None (register shellStub []) defaultGuard None"

definition scriptedHost :: "nat Host" where
  "scriptedHost = \<lparr> world = 0, events = [] \<rparr>"

definition scriptedStart :: "(nat, string) Agent \<times> nat Host" where
  "scriptedStart = pushAppend (plain User ''go'') (scriptedAgent, scriptedHost)"

definition scriptedCalled :: "(string + Message \<times> ref) \<times> nat Host" where
  "scriptedCalled =
     callWithFallback scriptedRuntime 0 (fst scriptedStart)
       (getDefinitions (tools (fst scriptedStart)) None) (snd scriptedStart)"

definition scriptedDispatched :: "(nat, string) Agent \<times> nat Host" where
  "scriptedDispatched =
     dispatchTools scriptedRuntime threeCalls
       (pushAppend toolRequest (fst scriptedStart, snd scriptedCalled))"
















text \<open>
  Two turns of an agent with one triggered skill: the first message holds the trigger
  word, the second does not.
\<close>

definition reviewSkill :: Skill where
  "reviewSkill =
     \<lparr> skill_name = ''code-review'', skill_trigger = Some ''review'',
       skill_content = ''Check for security issues first.'',
       skill_filePath = ''skills/code-review.md'' \<rparr>"

definition answeringRuntime :: "(unit, string) Runtime" where
  "answeringRuntime = \<lparr> providerAt = (\<lambda>r. answeringFallback), jsonParse = braceParse \<rparr>"

definition skilledAgent :: "(unit, string) Agent" where
  "skilledAgent = newAgent 0 None [] defaultGuard (Some [reviewSkill])"

definition afterReview :: "(unit, string) Agent \<times> unit Host" where
  "afterReview = snd (handleMessage answeringRuntime ''Please REVIEW my code'' (skilledAgent, freshHost))"

definition afterHello :: "(unit, string) Agent \<times> unit Host" where
  "afterHello = snd (handleMessage answeringRuntime ''hello'' afterReview)"


text \<open>
  The log of tasks run one after the other, the task in flight, and the invariant of a
  lane: its log is the log of the finished tasks followed by the start of the task in
  flight, and the finished tasks, the task in flight and the queue are the enqueued
  tasks in their order.
\<close>

fun pairs :: "('t \<times> bool) list \<Rightarrow> 't LaneEvent list" where
  "pairs [] = []"
| "pairs ((t, ok) # ds) = Started t # Settled t ok # pairs ds"

definition inFlight :: "'t option \<Rightarrow> 't list" where
  "inFlight x = (case x of None \<Rightarrow> [] | Some t \<Rightarrow> [t])"

definition laneInv :: "'t Lane \<Rightarrow> 't list \<Rightarrow> bool" where
  "laneInv l ts =
     (\<exists>ds. trace l = pairs ds @ map Started (inFlight (awaiting l))
           \<and> map fst ds @ inFlight (awaiting l) @ queue l = ts
           \<and> running l = (awaiting l \<noteq> None)
           \<and> (awaiting l = None \<longrightarrow> queue l = []))"

text \<open>Three tasks on the default lane and one on another lane.\<close>

definition laneInputs :: "nat LaneInput list" where
  "laneInputs =
     [Enqueue ''default'' 1, Enqueue ''default'' 2, Enqueue ''files'' 7,
      Settle ''default'' True, Enqueue ''default'' 3, Settle ''default'' False,
      Settle ''files'' True, Settle ''default'' True]"


section \<open>Properties of the context guard\<close>

lemma summaryLoop_digest: "summaryLoop ms acc = acc @ concat (map digest ms)"
proof (induction ms arbitrary: acc)
  case Nil
  show ?case by simp
next
  case (Cons m ms)
  show ?case
    by (cases "role m"; cases "tool_calls m"; simp add: Cons.IH digest_def)
qed

lemma recent_last4: "4 < length ms \<Longrightarrow> recent ms = drop (length ms - 4) ms"
  by (auto simp: recent_def nonSystem_def leadingSystem_def Suc_diff_le drop_Cons'
      split: option.splits list.splits)

lemma split_conversation:
  "msgs = (case leadingSystem msgs of Some s \<Rightarrow> [s] | None \<Rightarrow> []) @ toSummarise msgs @ recent msgs"
  by (auto simp: toSummarise_def recent_def nonSystem_def leadingSystem_def
      split: option.splits list.splits if_splits)

text \<open>
  Claim C7, as the code has it. On a conversation of more than four messages with a
  non-empty segment to summarise, the output of \<open>compact\<close> is the leading system message
  when there is one, then one user message, then the last four messages of the input.
  The content of the user message is the marker line, the digest lines of the replaced
  messages joined by newlines, and the closing lines. A digest line is \<open>User asked: \<close>,
  \<open>Assistant: \<close> or \<open>Tool result: \<close> followed by the content cut by \<open>truncate\<close> (the
  content itself up to 100, 100 and 60 characters, otherwise its first 100, 100 or 60
  characters and three dots), or \<open>Assistant used tools: \<close> followed by the tool names
  joined by a comma and a space when the field \<open>tool_calls\<close> is present; a replaced
  message of role system has no line. The input is the leading system message, the
  replaced segment and the last four messages, in this order.
\<close>

theorem compact_output:
  assumes "4 < length msgs" and "toSummarise msgs \<noteq> []"
  shows "compact' msgs =
           (case leadingSystem msgs of Some s \<Rightarrow> [s] | None \<Rightarrow> [])
           @ [\<lparr> role = User,
                content = ''[Context compacted. Summary of earlier conversation:'' @ [CHR 0x0A]
                          @ join [CHR 0x0A] (concat (map digest (toSummarise msgs)))
                          @ [CHR 0x0A] @ '']'' @ [CHR 0x0A] @ ''Continue from here.'',
                tool_calls = None, tool_call_id = None \<rparr>]
           @ drop (length msgs - 4) msgs
         \<and> length (drop (length msgs - 4) msgs) = 4
         \<and> msgs = (case leadingSystem msgs of Some s \<Rightarrow> [s] | None \<Rightarrow> [])
                  @ toSummarise msgs @ drop (length msgs - 4) msgs"
proof -
  have r: "recent msgs = drop (length msgs - 4) msgs"
    using assms(1) by (rule recent_last4)
  have c: "compact' msgs =
           (case leadingSystem msgs of Some s \<Rightarrow> [s] | None \<Rightarrow> [])
           @ [summaryMessage (summaryLoop (toSummarise msgs) [])] @ recent msgs"
    using assms by (simp add: compact'_def)
  have p: "msgs = (case leadingSystem msgs of Some s \<Rightarrow> [s] | None \<Rightarrow> [])
                  @ toSummarise msgs @ drop (length msgs - 4) msgs"
    using split_conversation[of msgs] r by simp
  show ?thesis
    using assms(1) p by (simp add: c r summaryMessage_def summaryLoop_digest)
qed

theorem compact_output_witness:
  "4 < length shellSession \<and> toSummarise shellSession \<noteq> []
   \<and> compact' shellSession =
       [plain System ''be brief'',
        plain User (''[Context compacted. Summary of earlier conversation:'' @ [CHR 0x0A]
          @ ''User asked: list files'' @ [CHR 0x0A]
          @ ''Assistant used tools: shell, read_file'' @ [CHR 0x0A]
          @ ''Tool result: a.txt'' @ [CHR 0x0A]
          @ ''Tool result: hello'' @ [CHR 0x0A] @ '']'' @ [CHR 0x0A] @ ''Continue from here.''),
        plain Assistant ''Found a.txt'', plain User ''thanks'', plain Assistant ''ok'',
        plain User ''bye'']"
proof -
  have l: "4 < length shellSession" by (simp add: shellSession_def)
  have t: "toSummarise shellSession = take 4 (drop 1 shellSession)"
    by (simp add: toSummarise_def nonSystem_def leadingSystem_def shellSession_def plain_def)
  have n: "toSummarise shellSession \<noteq> []"
    by (simp add: t) (simp add: shellSession_def)
  show ?thesis
    using compact_output[OF l n] l n
    by (simp add: t)
       (simp add: shellSession_def plain_def leadingSystem_def digest_def truncateText_def)
qed

text \<open>
  The digest line of a long message is not the prefix followed by its first 100
  characters: on \<open>longQuestion\<close> the output of \<open>compact\<close> differs from the output read
  literally.
\<close>

theorem compact_ellipsis_counterexample:
  "4 < length longQuestion \<and> toSummarise longQuestion \<noteq> []
   \<and> compact' longQuestion \<noteq> compactClaimed longQuestion"
  by (simp add: longQuestion_def plain_def compact'_def compactClaimed_def toSummarise_def
      recent_def nonSystem_def leadingSystem_def summaryMessage_def digestClaimed_def
      truncateText_def)

text \<open>
  Claim C8. \<open>compact\<close> keeps a leading system message as the first message of its
  output, and its output on a non-empty conversation is not empty.
\<close>

theorem compact_keeps_system:
  "(leadingSystem msgs = Some s \<longrightarrow> compact' msgs \<noteq> [] \<and> hd (compact' msgs) = s)
   \<and> (msgs \<noteq> [] \<longrightarrow> compact' msgs \<noteq> [])"
  by (auto simp: compact'_def leadingSystem_def split: list.splits if_splits option.splits)

theorem compact_keeps_system_witness:
  "leadingSystem shellSession = Some (plain System ''be brief'') \<and> shellSession \<noteq> []
   \<and> compact' shellSession \<noteq> [] \<and> hd (compact' shellSession) = plain System ''be brief''"
proof -
  have s: "leadingSystem shellSession = Some (plain System ''be brief'')"
    by (simp add: leadingSystem_def shellSession_def plain_def)
  have n: "shellSession \<noteq> []" by (simp add: shellSession_def)
  show ?thesis
    using compact_keeps_system[of shellSession "plain System ''be brief''"] s n by simp
qed

text \<open>
  Claim C9. For a fixed conversation, estimator and threshold strictly between 0 and 1,
  \<open>needsCompaction\<close> is antitone in \<open>maxTokens\<close>: when it holds for a budget, it holds
  for every smaller budget.
\<close>

theorem needsCompaction_antitone:
  assumes "0 < threshold g" and "threshold g < 1" and "m1 \<le> m2"
    and "needsCompaction (g\<lparr>maxTokens := m2\<rparr>) msgs est"
  shows "needsCompaction (g\<lparr>maxTokens := m1\<rparr>) msgs est"
proof -
  have "m1 * threshold g \<le> m2 * threshold g"
    using assms(1,3) by (simp add: mult_right_mono)
  with assms(4) show ?thesis by (simp add: needsCompaction_def Let_def)
qed

theorem needsCompaction_antitone_witness:
  "(0::real) < 0.8 \<and> (0.8::real) < 1 \<and> (5::real) \<le> 10
   \<and> needsCompaction \<lparr> maxTokens = 10, threshold = 0.8 \<rparr> shellSession (\<lambda>s. 1)
   \<and> needsCompaction \<lparr> maxTokens = 5, threshold = 0.8 \<rparr> shellSession (\<lambda>s. 1)"
proof -
  have n: "needsCompaction (\<lparr> maxTokens = 0, threshold = 0.8 \<rparr>\<lparr>maxTokens := 10\<rparr>)
             shellSession (\<lambda>s. 1)"
    by (simp add: needsCompaction_def estimateTotal_def shellSession_def plain_def)
  show ?thesis
    using needsCompaction_antitone[of "\<lparr> maxTokens = 0, threshold = 0.8 \<rparr>" 5 10
        shellSession "\<lambda>s. 1"] n
    by simp
qed

section \<open>Properties of the turn orchestrator\<close>

subsection \<open>Invariants of a turn\<close>

lemma preserved_dispatch:
  assumes "preserved rt I"
  shows "I st \<Longrightarrow> I (dispatchTools rt tcs st)"
proof (induction tcs arbitrary: st)
  case Nil
  then show ?case by simp
next
  case (Cons tc tcs)
  obtain a h where st: "st = (a, h)" by (cases st)
  have p: "\<And>m. I (pushAppend m (a, h))"
    using assms Cons.prems by (simp add: preserved_def st)
  show ?case
  proof (cases "get (tools a) (tc_name tc)")
    case None
    then show ?thesis using Cons.IH p by (simp add: st Let_def)
  next
    case (Some tool)
    show ?thesis
    proof (cases "jsonParse rt (tc_arguments tc)")
      case None
      then show ?thesis using Some Cons.IH p by (simp add: st Let_def)
    next
      case (Some args)
      obtain res w' where ex: "execute tool args (world h) = (res, w')"
        by (cases "execute tool args (world h)")
      have "I (a, emit (Notice (''  [tool: '' @ tc_name tc @ '']'')) h)"
        using assms Cons.prems by (simp add: preserved_def st)
      then have "I (a, emit (ToolExecute (tc_name tc) (tc_arguments tc))
                   ((emit (Notice (''  [tool: '' @ tc_name tc @ '']'')) h)\<lparr>world := w'\<rparr>))"
        using assms by (simp add: preserved_def)
      then have "I (pushAppend \<lparr> role = Tool, content = tr_output res, tool_calls = None,
                     tool_call_id = Some (tc_id tc) \<rparr>
                   (a, emit (ToolExecute (tc_name tc) (tc_arguments tc))
                   ((emit (Notice (''  [tool: '' @ tc_name tc @ '']'')) h)\<lparr>world := w'\<rparr>)))"
        using assms by (simp add: preserved_def)
      then show ?thesis
        using Some \<open>get (tools a) (tc_name tc) = Some tool\<close> ex Cons.IH
        by (simp add: st Let_def emit_def)
    qed
  qed
qed

lemma preserved_callChat:
  assumes "preserved rt I" and "I (a, h)"
  shows "I (a, snd (callChat rt r (messages a) defs h))"
  using assms by (simp add: callChat_def preserved_def split: prod.splits)

lemma preserved_callWithFallback:
  assumes "preserved rt I" and "I (a, h)"
  shows "I (a, snd (callWithFallback rt r a defs h))"
proof -
  obtain res1 h1 where c1: "callChat rt r (messages a) defs h = (res1, h1)"
    by (cases "callChat rt r (messages a) defs h")
  have i1: "I (a, h1)" using preserved_callChat[OF assms, of r defs] c1 by simp
  show ?thesis
  proof (cases res1)
    case (Inr response)
    then show ?thesis using c1 i1 by (simp add: callWithFallback_def)
  next
    case (Inl e)
    show ?thesis
    proof (cases "fallback a")
      case None
      then show ?thesis using c1 i1 Inl by (simp add: callWithFallback_def)
    next
      case (Some fb)
      show ?thesis
      proof (cases "r = fb")
        case True
        then show ?thesis using c1 i1 Inl Some by (simp add: callWithFallback_def)
      next
        case False
        let ?h2 = "emit (Notice (''  ['' @ provider_name (providerAt rt r)
                                         @ '' failed, falling back to ''
                                         @ provider_name (providerAt rt fb) @ '']'')) h1"
        have i2: "I (a, ?h2)" using assms(1) i1 by (simp add: preserved_def)
        have "I (a, snd (callChat rt fb (messages a) defs ?h2))"
          using preserved_callChat[OF assms(1) i2] .
        then show ?thesis
          using c1 Inl Some False
          by (auto simp: callWithFallback_def Let_def split: prod.splits sum.splits)
      qed
    qed
  qed
qed

lemma preserved_turnStep:
  assumes "preserved rt I" and "I st"
  shows "I (snd (turnStep rt p st))"
proof -
  obtain a1 h1 where g: "guardContext rt p st = (a1, h1)" by (cases "guardContext rt p st")
  have i1: "I (a1, h1)"
  proof -
    obtain a h where st: "st = (a, h)" by (cases st)
    have "I (guardContext rt p (a, h))"
      using assms by (simp add: preserved_def st)
    then show ?thesis using g st by simp
  qed
  obtain res h2 where c: "callWithFallback rt p a1 (getDefinitions (tools a1) None) h1 = (res, h2)"
    by (cases "callWithFallback rt p a1 (getDefinitions (tools a1) None) h1")
  have i2: "I (a1, h2)"
    using preserved_callWithFallback[OF assms(1) i1, of p "getDefinitions (tools a1) None"] c by simp
  show ?thesis
  proof (cases res)
    case (Inl err)
    then show ?thesis using g c i2 by (simp add: turnStep_def)
  next
    case (Inr ra)
    obtain response act where ra: "ra = (response, act)" by (cases ra)
    have i3: "I (pushAppend response (a1, h2))"
      using assms(1) i2 by (simp add: preserved_def)
    show ?thesis
      using g c Inr ra i3 preserved_dispatch[OF assms(1) i3]
      by (simp add: turnStep_def Let_def split: option.splits)
  qed
qed

lemma preserved_turnLoop:
  assumes "preserved rt I"
  shows "I st \<Longrightarrow> I (snd (turnLoop rt turns p st))"
proof (induction "MAX_TURNS - turns" arbitrary: turns p st)
  case 0
  then show ?case by (simp add: turnLoop.simps)
next
  case (Suc k)
  then have lt: "turns < MAX_TURNS" by simp
  obtain res st' where s: "turnStep rt p st = (res, st')" by (cases "turnStep rt p st")
  have i: "I st'" using preserved_turnStep[OF assms Suc.prems, of p] s by simp
  show ?case
  proof (cases res)
    case (Inl reply)
    then show ?thesis using lt s i by (simp add: turnLoop.simps)
  next
    case (Inr act)
    have "k = MAX_TURNS - Suc turns" using Suc.hyps(2) by simp
    from Suc.hyps(1)[OF this i, of act] show ?thesis
      using lt s Inr by (simp add: turnLoop.simps)
  qed
qed

lemma preserved_handleMessage:
  assumes "preserved rt I" and "I (a, h)" and "I (injectSkills u a, h)"
  shows "I (snd (handleMessage rt u (a, h)))"
proof -
  have "I (pushAppend \<lparr> role = User, content = u, tool_calls = None, tool_call_id = None \<rparr>
             (injectSkills u a, h))"
    using assms(1,3) by (simp add: preserved_def)
  from preserved_turnLoop[OF assms(1) this] show ?thesis
    by (simp add: handleMessage_def Let_def)
qed

subsection \<open>The loop counter\<close>





lemma injectSkills_provider: "provider (injectSkills u a) = provider a"
  by (simp add: injectSkills_def Let_def split: option.splits)

subsection \<open>Provider failure and fallback\<close>

lemma reached_result:
  "reached rt u st0 turns p st \<Longrightarrow> handleMessage rt u st0 = turnLoop rt turns p st"
proof (induction rule: reached.induct)
  case start
  show ?case by (cases st0) (simp add: handleMessage_def Let_def)
next
  case (continue turns p st p' st')
  then show ?case by (simp add: turnLoop.simps[of rt turns])
qed

lemma preserved_sameConfig: "preserved rt (sameConfig a)"
  by (simp add: preserved_def sameConfig_def pushAppend_def guardContext_def Let_def
      split: option.splits prod.splits)

lemma injectSkills_sameConfig: "sameConfig a (a', h) \<Longrightarrow> sameConfig a (injectSkills u a', h)"
  by (simp add: sameConfig_def injectSkills_def Let_def split: option.splits)

lemma reached_sameConfig:
  "reached rt u st0 turns p st \<Longrightarrow> sameConfig (fst st0) st"
proof (induction rule: reached.induct)
  case start
  have "sameConfig (fst st0) (injectSkills u (fst st0), snd st0)"
    by (rule injectSkills_sameConfig) (simp add: sameConfig_def)
  then show ?case using preserved_sameConfig[of rt "fst st0"] by (simp add: preserved_def)
next
  case (continue turns p st p' st')
  from preserved_turnStep[OF preserved_sameConfig[of rt] continue.IH, where p = p] continue.hyps(3)
  show ?case by simp
qed

lemma guardContext_sameConfig: "sameConfig a st \<Longrightarrow> sameConfig a (guardContext rt p st)"
  using preserved_sameConfig[of rt a] by (cases st) (simp add: preserved_def)

text \<open>
  Claim C1, as the code has it. When, at an iteration of a turn, the call of the primary
  provider fails, a distinct fallback provider is configured and the retried call on the
  fallback fails too, the turn ends at this iteration and \<open>handleMessage\<close> returns the
  text \<open>Both providers failed. \<close> followed by the name of the fallback provider, a colon,
  and the error of the fallback: the text is built from the name and the error of the
  fallback. The names of both providers are in the notice that is sent to the output
  between the two calls.
\<close>

theorem both_providers_failed:
  assumes "reached rt userInput (a, h) turns (provider a) st" and "turns < MAX_TURNS"
    and "fallback a = Some fb" and "provider a \<noteq> fb"
    and "guardContext rt (provider a) st = (a1, h1)"
    and "chat (providerAt rt (provider a)) (messages a1) (getDefinitions (tools a1) None) (world h1)
           = (Inl e, w1)"
    and "chat (providerAt rt fb) (messages a1) (getDefinitions (tools a1) None) w1 = (Inl e2, w2)"
  shows "replyOf (handleMessage rt userInput (a, h))
           = ''Both providers failed. '' @ provider_name (providerAt rt fb) @ '': '' @ e2
         \<and> turnsOf (handleMessage rt userInput (a, h)) = Suc turns
         \<and> events (hostOf (handleMessage rt userInput (a, h)))
             = events h1
               @ [ChatCall (provider a) (messages a1),
                  Notice (''  ['' @ provider_name (providerAt rt (provider a))
                          @ '' failed, falling back to ''
                          @ provider_name (providerAt rt fb) @ '']''),
                  ChatCall fb (messages a1)]"
proof -
  have "sameConfig a (a1, h1)"
    using guardContext_sameConfig[OF reached_sameConfig[OF assms(1)], of rt "provider a"] assms(5)
    by simp
  then have fb: "fallback a1 = Some fb" using assms(3) by (simp add: sameConfig_def)
  have s: "turnStep rt (provider a) st
          = (Inl (''Both providers failed. '' @ provider_name (providerAt rt fb) @ '': '' @ e2),
             a1,
             h1\<lparr>world := w2,
                events := events h1
                  @ [ChatCall (provider a) (messages a1),
                     Notice (''  ['' @ provider_name (providerAt rt (provider a))
                             @ '' failed, falling back to ''
                             @ provider_name (providerAt rt fb) @ '']''),
                     ChatCall fb (messages a1)]\<rparr>)"
    using assms(4-7) fb
    by (simp add: turnStep_def callWithFallback_def callChat_def Let_def emit_def)
  show ?thesis
    using reached_result[OF assms(1)] assms(2)
    by (simp add: turnLoop.simps[of rt turns] s)
qed

theorem both_providers_failed_witness:
  "reached failRuntime ''hi'' (fallbackAgent, freshHost) 0 (provider fallbackAgent)
     (pushAppend (plain User ''hi'') (fallbackAgent, freshHost))
   \<and> 0 < MAX_TURNS \<and> fallback fallbackAgent = Some 1 \<and> provider fallbackAgent \<noteq> 1
   \<and> replyOf (handleMessage failRuntime ''hi'' (fallbackAgent, freshHost))
       = ''Both providers failed. groq: Error: rate limit''
   \<and> turnsOf (handleMessage failRuntime ''hi'' (fallbackAgent, freshHost)) = 1
   \<and> events (hostOf (handleMessage failRuntime ''hi'' (fallbackAgent, freshHost)))
       = [SessionAppend (plain User ''hi''),
          ChatCall 0 (messages fallbackAgent @ [plain User ''hi'']),
          Notice ''  [ollama failed, falling back to groq]'',
          ChatCall 1 (messages fallbackAgent @ [plain User ''hi''])]"
proof -
  let ?st = "pushAppend (plain User ''hi'') (fallbackAgent, freshHost)"
  have r: "reached failRuntime ''hi'' (fallbackAgent, freshHost) 0 (provider fallbackAgent) ?st"
    using reached.start[of failRuntime "''hi''" "(fallbackAgent, freshHost)"]
    by (simp add: injectSkills_def fallbackAgent_def newAgent_def plain_def)
  have t: "0 < MAX_TURNS" by (simp add: MAX_TURNS_def)
  have f: "fallback fallbackAgent = Some 1" by (simp add: fallbackAgent_def newAgent_def)
  have d: "provider fallbackAgent \<noteq> 1" by (simp add: fallbackAgent_def newAgent_def)
  have p0: "provider fallbackAgent = 0" by (simp add: fallbackAgent_def newAgent_def)
  have g: "guardContext failRuntime (provider fallbackAgent) ?st = (fst ?st, snd ?st)"
    by (simp add: guardContext_def needsCompaction_def estimateTotal_def pushAppend_def
        fallbackAgent_def newAgent_def failRuntime_def failingPrimary_def defaultGuard_def
        plain_def Let_def)
  have c1: "chat (providerAt failRuntime (provider fallbackAgent)) (messages (fst ?st))
              (getDefinitions (tools (fst ?st)) None) (world (snd ?st))
            = (Inl ''Error: connection refused'', ())"
    by (simp add: failRuntime_def failingPrimary_def fallbackAgent_def newAgent_def)
  have c2: "chat (providerAt failRuntime 1) (messages (fst ?st))
              (getDefinitions (tools (fst ?st)) None) () = (Inl ''Error: rate limit'', ())"
    by (simp add: failRuntime_def failingFallback_def)
  have st: "messages (fst ?st) = messages fallbackAgent @ [plain User ''hi'']"
    "events (snd ?st) = [SessionAppend (plain User ''hi'')]"
    by (simp_all add: pushAppend_def emit_def freshHost_def)
  have n: "provider_name (providerAt failRuntime 0) = ''ollama''"
    "provider_name (providerAt failRuntime 1) = ''groq''"
    "provider_name (providerAt failRuntime (Suc 0)) = ''groq''"
    by (simp_all add: failRuntime_def failingPrimary_def failingFallback_def)
  show ?thesis
    using both_providers_failed[OF r t f d g c1 c2] r t f d
    by (simp add: st n p0)
qed

text \<open>
  With a primary named \<open>ollama\<close> and a fallback named \<open>groq\<close> that both fail, the name
  \<open>ollama\<close> does not occur in the returned text.
\<close>

theorem primary_not_named_counterexample:
  "provider_name (providerAt failRuntime (provider fallbackAgent)) = ''ollama''
   \<and> fallback fallbackAgent = Some 1 \<and> provider fallbackAgent \<noteq> 1
   \<and> replyOf (handleMessage failRuntime ''hi'' (fallbackAgent, freshHost))
       = ''Both providers failed. groq: Error: rate limit''
   \<and> \<not> includes_str ''Both providers failed. groq: Error: rate limit'' ''ollama''"
  by (simp add: handleMessage_def injectSkills_def pushAppend_def turnLoop.simps turnStep_def
      guardContext_def needsCompaction_def estimateTotal_def callWithFallback_def callChat_def
      emit_def fallbackAgent_def newAgent_def failRuntime_def failingPrimary_def
      failingFallback_def defaultGuard_def freshHost_def MAX_TURNS_def Let_def)


subsection \<open>The configured providers\<close>

lemma firstChat_append_Some: "firstChat xs = Some r \<Longrightarrow> firstChat (xs @ ys) = Some r"
  by (induction xs rule: firstChat.induct) auto

lemma firstChat_append_None: "firstChat xs = None \<Longrightarrow> firstChat (xs @ ys) = firstChat ys"
  by (induction xs rule: firstChat.induct) auto

lemma preserved_extends: "preserved rt (\<lambda>st. \<exists>evs. events (snd st) = E @ evs)"
  by (auto simp: preserved_def pushAppend_def emit_def guardContext_def Let_def
      split: option.splits prod.splits)

lemma guardContext_events:
  "\<exists>pre. events (snd (guardContext rt p st)) = events (snd st) @ pre \<and> firstChat pre = None"
  by (cases st) (auto simp: guardContext_def emit_def Let_def split: option.splits prod.splits)

lemma callWithFallback_first:
  "\<exists>evs. events (snd (callWithFallback rt p a defs h)) = events h @ ChatCall p (messages a) # evs"
  by (auto simp: callWithFallback_def callChat_def emit_def Let_def
      split: option.splits prod.splits sum.splits)

lemma turnStep_first:
  "\<exists>evs. events (snd (snd (turnStep rt p st))) = events (snd st) @ evs \<and> firstChat evs = Some p"
proof -
  obtain a1 h1 where g: "guardContext rt p st = (a1, h1)" by (cases "guardContext rt p st")
  obtain pre where pre: "events h1 = events (snd st) @ pre" "firstChat pre = None"
    using guardContext_events[of rt p st] g by auto
  obtain res h2 where c: "callWithFallback rt p a1 (getDefinitions (tools a1) None) h1 = (res, h2)"
    by (cases "callWithFallback rt p a1 (getDefinitions (tools a1) None) h1")
  obtain evs where evs: "events h2 = events h1 @ ChatCall p (messages a1) # evs"
    using callWithFallback_first[of rt p a1 "getDefinitions (tools a1) None" h1] c by auto
  let ?E = "events (snd st) @ pre @ [ChatCall p (messages a1)]"
  have e2: "\<exists>evs. events (snd (a1, h2)) = ?E @ evs" using evs pre by simp
  have fc: "\<And>more. firstChat ((pre @ [ChatCall p (messages a1)]) @ more) = Some p"
    using pre(2) by (simp add: firstChat_append_None)
  have "\<exists>evs. events (snd (snd (turnStep rt p st))) = ?E @ evs"
  proof (cases res)
    case (Inl err)
    then show ?thesis using g c e2 by (simp add: turnStep_def)
  next
    case (Inr ra)
    obtain response act where ra: "ra = (response, act)" by (cases ra)
    have e3: "\<exists>evs. events (snd (pushAppend response (a1, h2))) = ?E @ evs"
      using e2 by (auto simp: pushAppend_def emit_def)
    have "\<exists>evs. events (snd (dispatchTools rt tcs (pushAppend response (a1, h2)))) = ?E @ evs"
      for tcs
      using preserved_dispatch[OF preserved_extends[of rt ?E],
          where st = "pushAppend response (a1, h2)" and tcs = tcs] e3 by simp
    then show ?thesis
      using g c Inr ra e3 by (simp add: turnStep_def Let_def split: option.splits)
  qed
  then obtain more where "events (snd (snd (turnStep rt p st))) = ?E @ more" by blast
  then have "events (snd (snd (turnStep rt p st)))
               = events (snd st) @ ((pre @ [ChatCall p (messages a1)]) @ more)" by simp
  then show ?thesis using fc by blast
qed

lemma turnLoop_first:
  assumes "turns < MAX_TURNS"
  shows "\<exists>evs. events (hostOf (turnLoop rt turns p st)) = events (snd st) @ evs
               \<and> firstChat evs = Some p"
proof -
  obtain res st' where s: "turnStep rt p st = (res, st')" by (cases "turnStep rt p st")
  obtain evs where evs: "events (snd st') = events (snd st) @ evs" "firstChat evs = Some p"
    using turnStep_first[of rt p st] s by auto
  show ?thesis
  proof (cases res)
    case (Inl reply)
    then show ?thesis using assms s evs by (simp add: turnLoop.simps[of rt turns])
  next
    case (Inr act)
    have "\<exists>more. events (snd (snd (turnLoop rt (Suc turns) act st'))) = events (snd st') @ more"
      using preserved_turnLoop[OF preserved_extends[of rt "events (snd st')"],
          where st = st' and turns = "Suc turns" and p = act] by simp
    then obtain more where
      "events (snd (snd (turnLoop rt (Suc turns) act st'))) = events (snd st) @ (evs @ more)"
      using evs(1) by auto
    then show ?thesis
      using assms s Inr evs(2) firstChat_append_Some[OF evs(2)]
      by (simp add: turnLoop.simps[of rt turns])
  qed
qed

lemma handleMessage_first:
  "firstChat (drop (length (events (snd st))) (events (hostOf (handleMessage rt u st))))
     = Some (provider (fst st))"
proof -
  obtain a h where st: "st = (a, h)" by (cases st)
  let ?userMsg = "\<lparr> role = User, content = u, tool_calls = None, tool_call_id = None \<rparr>"
  let ?st1 = "pushAppend ?userMsg (injectSkills u a, h)"
  have e1: "events (snd ?st1) = events h @ [SessionAppend ?userMsg]"
    by (simp add: pushAppend_def emit_def)
  have "0 < MAX_TURNS" by (simp add: MAX_TURNS_def)
  from turnLoop_first[OF this, of rt "provider a" ?st1]
  obtain evs where evs: "events (hostOf (turnLoop rt 0 (provider a) ?st1)) = events (snd ?st1) @ evs"
    "firstChat evs = Some (provider a)" by blast
  have "events (hostOf (handleMessage rt u st)) = events h @ (SessionAppend ?userMsg # evs)"
    using evs(1) e1 by (simp add: handleMessage_def st Let_def injectSkills_provider)
  then show ?thesis using evs(2) by (simp add: st)
qed

lemma handleMessage_sameConfig: "sameConfig (fst st) (snd (handleMessage rt u st))"
proof -
  obtain a h where st: "st = (a, h)" by (cases st)
  have 1: "sameConfig a (a, h)" by (simp add: sameConfig_def)
  have "sameConfig a (snd (handleMessage rt u (a, h)))"
    by (rule preserved_handleMessage[OF preserved_sameConfig 1 injectSkills_sameConfig[OF 1]])
  then show ?thesis by (simp add: st)
qed

text \<open>
  Claim C10. \<open>handleMessage\<close> leaves the fields \<open>provider\<close> and \<open>fallback\<close> of the agent as
  they are, so \<open>getProvider\<close> gives the name of the configured primary provider after
  any turn, and the first provider call of the next turn goes to the configured primary
  provider again, whether or not the fallback was engaged.
\<close>

theorem provider_fields_unchanged:
  "provider (agentOf (handleMessage rt u st)) = provider (fst st)
   \<and> fallback (agentOf (handleMessage rt u st)) = fallback (fst st)
   \<and> getProvider rt (agentOf (handleMessage rt u st))
       = provider_name (providerAt rt (provider (fst st)))
   \<and> firstChat (drop (length (events (hostOf (handleMessage rt u st))))
        (events (hostOf (handleMessage rt u' (snd (handleMessage rt u st))))))
       = Some (provider (fst st))"
proof -
  have c: "sameConfig (fst st) (snd (handleMessage rt u st))"
    by (rule handleMessage_sameConfig)
  have f: "firstChat (drop (length (events (hostOf (handleMessage rt u st))))
        (events (hostOf (handleMessage rt u' (snd (handleMessage rt u st))))))
       = Some (provider (agentOf (handleMessage rt u st)))"
    using handleMessage_first[of "snd (handleMessage rt u st)" rt u'] by simp
  show ?thesis using c f by (simp add: sameConfig_def getProvider_def)
qed

theorem provider_fields_unchanged_witness:
  "Notice ''  [ollama failed, falling back to groq]''
     \<in> set (events (hostOf (handleMessage fallbackRuntime ''one'' (fallbackAgent, freshHost))))
   \<and> replyOf (handleMessage fallbackRuntime ''one'' (fallbackAgent, freshHost)) = ''hello''
   \<and> provider (agentOf (handleMessage fallbackRuntime ''one'' (fallbackAgent, freshHost))) = 0
   \<and> fallback (agentOf (handleMessage fallbackRuntime ''one'' (fallbackAgent, freshHost))) = Some 1
   \<and> getProvider fallbackRuntime
        (agentOf (handleMessage fallbackRuntime ''one'' (fallbackAgent, freshHost))) = ''ollama''
   \<and> firstChat (drop (length (events (hostOf
          (handleMessage fallbackRuntime ''one'' (fallbackAgent, freshHost)))))
        (events (hostOf (handleMessage fallbackRuntime ''two''
          (snd (handleMessage fallbackRuntime ''one'' (fallbackAgent, freshHost)))))))
       = Some 0"
proof -
  have n: "Notice ''  [ollama failed, falling back to groq]''
     \<in> set (events (hostOf (handleMessage fallbackRuntime ''one'' (fallbackAgent, freshHost))))
     \<and> replyOf (handleMessage fallbackRuntime ''one'' (fallbackAgent, freshHost)) = ''hello''"
    by (simp add: handleMessage_def injectSkills_def pushAppend_def turnLoop.simps turnStep_def
        guardContext_def needsCompaction_def estimateTotal_def callWithFallback_def callChat_def
        emit_def fallbackAgent_def newAgent_def fallbackRuntime_def failingPrimary_def
        answeringFallback_def defaultGuard_def freshHost_def MAX_TURNS_def plain_def Let_def)
  have p: "provider fallbackAgent = 0" "fallback fallbackAgent = Some 1"
    "provider_name (providerAt fallbackRuntime 0) = ''ollama''"
    by (simp_all add: fallbackAgent_def newAgent_def fallbackRuntime_def failingPrimary_def)
  show ?thesis
    using provider_fields_unchanged[of fallbackRuntime "''one''" "(fallbackAgent, freshHost)" "''two''"]
      n p
    by simp
qed


subsection \<open>Tool dispatch\<close>

lemma sessionLog_append: "sessionLog (xs @ ys) = sessionLog xs @ sessionLog ys"
  by (induction xs rule: sessionLog.induct) auto

lemma dispatch_unknown:
  "get (tools a) (tc_name tc) = None
   \<Longrightarrow> dispatchTools rt (tc # tcs) (a, h)
       = dispatchTools rt tcs (pushAppend (unknownToolMessage tc) (a, h))"
  by (simp add: unknownToolMessage_def Let_def)

lemma dispatch_invalid:
  "get (tools a) (tc_name tc) = Some tool \<Longrightarrow> jsonParse rt (tc_arguments tc) = None
   \<Longrightarrow> dispatchTools rt (tc # tcs) (a, h)
       = dispatchTools rt tcs (pushAppend (invalidJsonMessage tc) (a, h))"
  by (simp add: invalidJsonMessage_def Let_def)

lemma dispatch_execute:
  "get (tools a) (tc_name tc) = Some tool \<Longrightarrow> jsonParse rt (tc_arguments tc) = Some args
   \<Longrightarrow> dispatchTools rt (tc # tcs) (a, h)
       = dispatchTools rt tcs
           (pushAppend \<lparr> role = Tool, content = tr_output (fst (execute tool args (world h))),
                          tool_calls = None, tool_call_id = Some (tc_id tc) \<rparr>
              (a, emit (ToolExecute (tc_name tc) (tc_arguments tc))
                    ((emit (Notice (''  [tool: '' @ tc_name tc @ '']'')) h)
                       \<lparr>world := snd (execute tool args (world h))\<rparr>)))"
  by (simp add: Let_def emit_def split: prod.splits)

lemma dispatch_step:
  "\<exists>m h0. dispatchTools rt (tc # tcs) (a, h) = dispatchTools rt tcs (pushAppend m (a, h0))
          \<and> sessionLog (events h0) = sessionLog (events h) \<and> answers rt (tools a) tc m"
proof (cases "get (tools a) (tc_name tc)")
  case None
  have "answers rt (tools a) tc (unknownToolMessage tc)"
    using None by (simp add: answers_def unknownToolMessage_def)
  then show ?thesis using dispatch_unknown[OF None] by blast
next
  case (Some tool)
  show ?thesis
  proof (cases "jsonParse rt (tc_arguments tc)")
    case None
    have "answers rt (tools a) tc (invalidJsonMessage tc)"
      using None Some by (simp add: answers_def invalidJsonMessage_def)
    then show ?thesis using dispatch_invalid[OF Some None] by blast
  next
    case (Some args)
    let ?m = "\<lparr> role = Tool, content = tr_output (fst (execute tool args (world h))),
                 tool_calls = None, tool_call_id = Some (tc_id tc) \<rparr>"
    let ?h0 = "emit (ToolExecute (tc_name tc) (tc_arguments tc))
                    ((emit (Notice (''  [tool: '' @ tc_name tc @ '']'')) h)
                       \<lparr>world := snd (execute tool args (world h))\<rparr>)"
    have 1: "answers rt (tools a) tc ?m"
      using Some \<open>get (tools a) (tc_name tc) = Some tool\<close> by (simp add: answers_def)
    have 2: "sessionLog (events ?h0) = sessionLog (events h)"
      by (simp add: emit_def sessionLog_append)
    show ?thesis
      using dispatch_execute[OF \<open>get (tools a) (tc_name tc) = Some tool\<close> Some] 1 2 by blast
  qed
qed

lemma dispatch_replies:
  "\<exists>replies.
     messages (fst (dispatchTools rt tcs (a, h))) = messages a @ replies
     \<and> sessionLog (events (snd (dispatchTools rt tcs (a, h)))) = sessionLog (events h) @ replies
     \<and> list_all2 (answers rt (tools a)) tcs replies"
proof (induction tcs arbitrary: a h)
  case Nil
  show ?case by simp
next
  case (Cons tc tcs)
  from dispatch_step[of rt tc tcs a h] obtain m h0 where
    s: "dispatchTools rt (tc # tcs) (a, h) = dispatchTools rt tcs (pushAppend m (a, h0))"
       "sessionLog (events h0) = sessionLog (events h)" "answers rt (tools a) tc m"
    by blast
  let ?a' = "a\<lparr>messages := messages a @ [m]\<rparr>"
  let ?h' = "emit (SessionAppend m) h0"
  have p: "pushAppend m (a, h0) = (?a', ?h')" by (simp add: pushAppend_def)
  from Cons.IH[of ?a' ?h'] obtain replies where
    r: "messages (fst (dispatchTools rt tcs (?a', ?h'))) = messages ?a' @ replies"
       "sessionLog (events (snd (dispatchTools rt tcs (?a', ?h'))))
          = sessionLog (events ?h') @ replies"
       "list_all2 (answers rt (tools ?a')) tcs replies"
    by blast
  show ?case
    by (rule exI[of _ "m # replies"])
       (use s r p in \<open>simp add: emit_def sessionLog_append\<close>)
qed

text \<open>
  Claim C6. When a response carries invocation requests, the dispatch appends one tool
  message per request, in order, to the conversation and to the session store; the
  message of a request refers to its id, reports an unknown-tool error when the tool is
  not in the registry, and a malformed-argument error when the argument text does not
  parse. The turn is not aborted: the loop goes on to its next iteration with the state
  after the dispatch, and, while the turn limit is not reached, to the next provider
  call.
\<close>

theorem tool_errors_answered:
  assumes "reached rt u st0 turns p st" and "turns < MAX_TURNS"
    and "guardContext rt p st = (a1, h1)"
    and "callWithFallback rt p a1 (getDefinitions (tools a1) None) h1 = (Inr (response, p'), h2)"
    and "tool_calls response = Some tcs" and "tcs \<noteq> []"
    and "dispatchTools rt tcs (pushAppend response (a1, h2)) = (a', h')"
  shows "messages a' = messages a1 @ [response] @ drop (Suc (length (messages a1))) (messages a')
         \<and> list_all2 (answers rt (tools a1)) tcs (drop (Suc (length (messages a1))) (messages a'))
         \<and> sessionLog (events h')
             = sessionLog (events h2) @ [response] @ drop (Suc (length (messages a1))) (messages a')
         \<and> reached rt u st0 (Suc turns) p' (a', h')
         \<and> handleMessage rt u st0 = turnLoop rt (Suc turns) p' (a', h')
         \<and> (Suc turns < MAX_TURNS \<longrightarrow>
               firstChat (drop (length (events h')) (events (hostOf (handleMessage rt u st0))))
                 = Some p')"
proof -
  let ?a3 = "a1\<lparr>messages := messages a1 @ [response]\<rparr>"
  let ?h3 = "emit (SessionAppend response) h2"
  have p3: "pushAppend response (a1, h2) = (?a3, ?h3)" by (simp add: pushAppend_def)
  from dispatch_replies[of rt tcs ?a3 ?h3] assms(7) p3
  obtain replies where r: "messages a' = (messages a1 @ [response]) @ replies"
    "sessionLog (events h') = sessionLog (events ?h3) @ replies"
    "list_all2 (answers rt (tools a1)) tcs replies"
    by auto
  have d: "drop (Suc (length (messages a1))) (messages a') = replies"
    using r(1) by simp
  have step: "turnStep rt p st = (Inr p', (a', h'))"
    using assms(3-7) by (simp add: turnStep_def Let_def)
  have re: "reached rt u st0 (Suc turns) p' (a', h')"
    by (rule reached.continue[OF assms(1,2) step])
  have hm: "handleMessage rt u st0 = turnLoop rt (Suc turns) p' (a', h')"
    by (rule reached_result[OF re])
  have fc: "firstChat (drop (length (events h')) (events (hostOf (handleMessage rt u st0))))
                 = Some p'" if "Suc turns < MAX_TURNS"
    using turnLoop_first[OF that, of rt p' "(a', h')"] hm by auto
  show ?thesis
    using r d re hm fc by (simp add: emit_def sessionLog_append)
qed


lemma scriptedStart_eq:
  "scriptedStart =
     (scriptedAgent\<lparr>messages := messages scriptedAgent @ [plain User ''go'']\<rparr>,
      \<lparr> world = 0, events = [SessionAppend (plain User ''go'')] \<rparr>)"
  by (simp add: scriptedStart_def pushAppend_def emit_def scriptedHost_def)

lemma scriptedCalled_eq:
  "scriptedCalled =
     (Inr (toolRequest, 0),
      \<lparr> world = Suc 0,
        events = [SessionAppend (plain User ''go''),
                  ChatCall 0 (messages scriptedAgent @ [plain User ''go''])] \<rparr>)"
  by (simp add: scriptedCalled_def scriptedStart_eq callWithFallback_def callChat_def emit_def
      scriptedRuntime_def scriptedProvider_def)

theorem tool_errors_answered_witness:
  "reached scriptedRuntime ''go'' (scriptedAgent, scriptedHost) 0 0 scriptedStart
   \<and> 0 < MAX_TURNS
   \<and> guardContext scriptedRuntime 0 scriptedStart = scriptedStart
   \<and> fst scriptedCalled = Inr (toolRequest, 0)
   \<and> tool_calls toolRequest = Some threeCalls \<and> threeCalls \<noteq> []
   \<and> messages (fst scriptedDispatched)
       = messages scriptedAgent
         @ [plain User ''go'', toolRequest,
            \<lparr> role = Tool, content = ''Error: unknown tool '' @ [CHR 0x22] @ ''nonexistent''
                  @ [CHR 0x22],
              tool_calls = None, tool_call_id = Some ''call_1'' \<rparr>,
            \<lparr> role = Tool, content = ''Error: invalid JSON in tool arguments: oops'',
              tool_calls = None, tool_call_id = Some ''call_2'' \<rparr>,
            \<lparr> role = Tool, content = ''a.txt'',
              tool_calls = None, tool_call_id = Some ''call_3'' \<rparr>]
   \<and> list_all2 (answers scriptedRuntime (tools scriptedAgent)) threeCalls
         (drop 3 (messages (fst scriptedDispatched)))
   \<and> reached scriptedRuntime ''go'' (scriptedAgent, scriptedHost) (Suc 0) 0 scriptedDispatched
   \<and> firstChat (drop (length (events (snd scriptedDispatched)))
         (events (hostOf (handleMessage scriptedRuntime ''go'' (scriptedAgent, scriptedHost)))))
       = Some 0"
proof -
  have ag: "provider scriptedAgent = 0" "skills scriptedAgent = None"
    "tools scriptedAgent = [(''shell'', shellStub)]" "guard scriptedAgent = defaultGuard"
    "length (messages scriptedAgent) = 1"
    by (simp_all add: scriptedAgent_def newAgent_def register_def shellStub_def)
  have r: "reached scriptedRuntime ''go'' (scriptedAgent, scriptedHost) 0 0 scriptedStart"
    using reached.start[of scriptedRuntime "''go''" "(scriptedAgent, scriptedHost)"]
    by (simp add: injectSkills_def ag scriptedStart_def plain_def)
  have t: "0 < MAX_TURNS" "Suc 0 < MAX_TURNS" by (simp_all add: MAX_TURNS_def)
  have g: "guardContext scriptedRuntime 0 scriptedStart = (fst scriptedStart, snd scriptedStart)"
    by (simp add: scriptedStart_eq guardContext_def needsCompaction_def estimateTotal_def ag
        scriptedAgent_def newAgent_def scriptedRuntime_def scriptedProvider_def defaultGuard_def
        plain_def Let_def)
  have c: "callWithFallback scriptedRuntime 0 (fst scriptedStart)
             (getDefinitions (tools (fst scriptedStart)) None) (snd scriptedStart)
           = (Inr (toolRequest, 0), snd scriptedCalled)"
    using scriptedCalled_eq by (simp add: scriptedCalled_def)
  have tc: "tool_calls toolRequest = Some threeCalls" by (simp add: toolRequest_def)
  have ne: "threeCalls \<noteq> []" by (simp add: threeCalls_def)
  have d: "dispatchTools scriptedRuntime threeCalls
             (pushAppend toolRequest (fst scriptedStart, snd scriptedCalled))
           = (fst scriptedDispatched, snd scriptedDispatched)"
    by (simp add: scriptedDispatched_def)
  have m: "messages (fst scriptedDispatched)
       = messages scriptedAgent
         @ [plain User ''go'', toolRequest,
            \<lparr> role = Tool, content = ''Error: unknown tool '' @ [CHR 0x22] @ ''nonexistent''
                  @ [CHR 0x22],
              tool_calls = None, tool_call_id = Some ''call_1'' \<rparr>,
            \<lparr> role = Tool, content = ''Error: invalid JSON in tool arguments: oops'',
              tool_calls = None, tool_call_id = Some ''call_2'' \<rparr>,
            \<lparr> role = Tool, content = ''a.txt'',
              tool_calls = None, tool_call_id = Some ''call_3'' \<rparr>]"
    by (simp add: scriptedDispatched_def scriptedCalled_eq scriptedStart_eq threeCalls_def
        pushAppend_def emit_def get_def ag scriptedRuntime_def braceParse_def shellStub_def
        Let_def)
  have l: "Suc (length (messages (fst scriptedStart))) = 3"
    and tl: "tools (fst scriptedStart) = tools scriptedAgent"
    by (simp_all add: scriptedStart_eq ag)
  note th = tool_errors_answered[OF r t(1) g c tc ne d]
  have la: "list_all2 (answers scriptedRuntime (tools scriptedAgent)) threeCalls
              (drop 3 (messages (fst scriptedDispatched)))"
    using th unfolding l tl by blast
  have re: "reached scriptedRuntime ''go'' (scriptedAgent, scriptedHost) (Suc 0) 0
              scriptedDispatched"
    using th by simp
  have fc: "firstChat (drop (length (events (snd scriptedDispatched)))
              (events (hostOf (handleMessage scriptedRuntime ''go'' (scriptedAgent, scriptedHost)))))
            = Some 0"
    using th t(2) by blast
  have g': "guardContext scriptedRuntime 0 scriptedStart = scriptedStart"
    using g by simp
  have c': "fst scriptedCalled = Inr (toolRequest, 0)"
    by (simp add: scriptedCalled_eq)
  show ?thesis
    by (intro conjI) (fact r t(1) g' c' tc ne m la re fc)+
qed


subsection \<open>The turn limit and the provider calls of a turn\<close>
















subsection \<open>The session log\<close>























subsection \<open>Skill text in the system message\<close>

lemma lower_review: "toLowerCase ''Please REVIEW my code'' = ''please review my code''"
  by code_simp

lemma lower_hello: "toLowerCase ''hello'' = ''hello''" "toLowerCase ''review'' = ''review''"
  by code_simp+

lemma prompt_review:
  "buildPrompt [reviewSkill] ''Please REVIEW my code''
     = [CHR 0x0A, CHR 0x0A] @ ''[Skill: code-review]'' @ [CHR 0x0A]
       @ ''Check for security issues first.''"
  by (simp add: buildPrompt_def getRelevant_def reviewSkill_def lower_review lower_hello)

lemma prompt_hello: "buildPrompt [reviewSkill] ''hello'' = []"
  by (simp add: buildPrompt_def getRelevant_def reviewSkill_def lower_hello)

lemma afterReview_messages:
  "messages (fst afterReview)
     = [plain System (SYSTEM_PROMPT @ buildPrompt [reviewSkill] ''Please REVIEW my code''),
        plain User ''Please REVIEW my code'', plain Assistant ''hello'']"
  by (simp add: afterReview_def handleMessage_def injectSkills_def prompt_review
      leadingSystem_def pushAppend_def
      turnLoop.simps turnStep_def guardContext_def needsCompaction_def estimateTotal_def
      callWithFallback_def callChat_def emit_def skilledAgent_def newAgent_def
      answeringRuntime_def answeringFallback_def defaultGuard_def freshHost_def MAX_TURNS_def
      plain_def Let_def)

lemma afterReview_config:
  "skills (fst afterReview) = Some [reviewSkill]" "provider (fst afterReview) = 0"
  "guard (fst afterReview) = defaultGuard" "tools (fst afterReview) = []"
  "fallback (fst afterReview) = None"
  using handleMessage_sameConfig[of "(skilledAgent, freshHost)" answeringRuntime
      "''Please REVIEW my code''"]
  by (simp_all add: afterReview_def sameConfig_def skilledAgent_def newAgent_def)

text \<open>
  Claim C2 on the two turns above. No skill is selected for the second message, and
  after the second turn the system message still holds the skill text that was selected
  for the first message: it is not the base prompt followed by the text selected for
  the second message.
\<close>

theorem stale_skill_text:
  "buildPrompt [reviewSkill] ''hello'' = []
   \<and> messages (fst afterHello)
       = [plain System (SYSTEM_PROMPT @ [CHR 0x0A, CHR 0x0A] @ ''[Skill: code-review]''
                        @ [CHR 0x0A] @ ''Check for security issues first.''),
          plain User ''Please REVIEW my code'', plain Assistant ''hello'',
          plain User ''hello'', plain Assistant ''hello'']
   \<and> hd (messages (fst afterHello))
       \<noteq> plain System (SYSTEM_PROMPT @ buildPrompt [reviewSkill] ''hello'')"
proof -
  obtain a h where ar: "afterReview = (a, h)" by (cases afterReview)
  have a: "messages a
     = [plain System (SYSTEM_PROMPT @ buildPrompt [reviewSkill] ''Please REVIEW my code''),
        plain User ''Please REVIEW my code'', plain Assistant ''hello'']"
    "skills a = Some [reviewSkill]" "provider a = 0" "guard a = defaultGuard" "tools a = []"
    "fallback a = None"
    using afterReview_messages afterReview_config by (simp_all add: ar)
  have m: "messages (fst afterHello)
       = [plain System (SYSTEM_PROMPT @ [CHR 0x0A, CHR 0x0A] @ ''[Skill: code-review]''
                        @ [CHR 0x0A] @ ''Check for security issues first.''),
          plain User ''Please REVIEW my code'', plain Assistant ''hello'',
          plain User ''hello'', plain Assistant ''hello'']"
    by (simp add: afterHello_def ar handleMessage_def injectSkills_def a prompt_hello
        prompt_review pushAppend_def
        turnLoop.simps turnStep_def guardContext_def needsCompaction_def estimateTotal_def
        callWithFallback_def callChat_def emit_def getDefinitions_def
        answeringRuntime_def answeringFallback_def defaultGuard_def MAX_TURNS_def
        plain_def Let_def)
  show ?thesis
    by (simp add: m prompt_hello) (simp add: plain_def)
qed


section \<open>Properties of the execution lane\<close>

lemma pairs_append: "pairs (ds @ es) = pairs ds @ pairs es"
  by (induction ds rule: pairs.induct) auto

lemma serial_pairs: "serial (pairs ds)" "serial (pairs ds @ [Started t])"
  by (induction ds rule: pairs.induct) auto

lemma started_pairs:
  "startedTasks (pairs ds) = map fst ds" "startedTasks (pairs ds @ [Started t]) = map fst ds @ [t]"
  by (induction ds rule: pairs.induct) auto

lemma settled_pairs:
  "settledTasks (pairs ds) = map fst ds" "settledTasks (pairs ds @ [Started t]) = map fst ds"
  by (induction ds rule: pairs.induct) auto

lemma laneInv_new: "laneInv newLane []"
  unfolding laneInv_def
  by (intro exI[of _ "[]"]) (simp add: newLane_def inFlight_def)

lemma laneInv_enqueue:
  assumes "laneInv l ts"
  shows "laneInv (enqueue task l) (ts @ [task])"
proof -
  from assms obtain ds where d: "trace l = pairs ds @ map Started (inFlight (awaiting l))"
    "map fst ds @ inFlight (awaiting l) @ queue l = ts" "running l = (awaiting l \<noteq> None)"
    "awaiting l = None \<longrightarrow> queue l = []"
    unfolding laneInv_def by (elim exE conjE) (rule that)
  show ?thesis
  proof (cases "awaiting l")
    case None
    then show ?thesis
      using d unfolding laneInv_def
      by (intro exI[of _ ds]) (simp add: enqueue_def process_def processLoop_def inFlight_def)
  next
    case (Some t)
    then show ?thesis
      using d unfolding laneInv_def
      by (intro exI[of _ ds]) (simp add: enqueue_def process_def inFlight_def)
  qed
qed

lemma laneInv_settle:
  assumes "laneInv l ts"
  shows "laneInv (settle ok l) ts"
proof -
  from assms obtain ds where d: "trace l = pairs ds @ map Started (inFlight (awaiting l))"
    "map fst ds @ inFlight (awaiting l) @ queue l = ts" "running l = (awaiting l \<noteq> None)"
    "awaiting l = None \<longrightarrow> queue l = []"
    unfolding laneInv_def by (elim exE conjE) (rule that)
  show ?thesis
  proof (cases "awaiting l")
    case None
    then show ?thesis using assms by (simp add: settle_def)
  next
    case (Some t)
    show ?thesis
    proof (cases "queue l")
      case Nil
      then show ?thesis
        using d Some unfolding laneInv_def
        by (intro exI[of _ "ds @ [(t, ok)]"])
           (simp add: settle_def processLoop_def inFlight_def pairs_append)
    next
      case (Cons item rest)
      then show ?thesis
        using d Some unfolding laneInv_def
        by (intro exI[of _ "ds @ [(t, ok)]"])
           (simp add: settle_def processLoop_def inFlight_def pairs_append)
    qed
  qed
qed

lemma enqueuedOn_snoc:
  "enqueuedOn k (inputs @ [x])
     = enqueuedOn k inputs
       @ (case x of Enqueue k' task \<Rightarrow> if k' = k then [task] else [] | Settle k' ok \<Rightarrow> [])"
  by (induction k inputs rule: enqueuedOn.induct) (auto split: LaneInput.splits)

lemma laneRun_snoc: "laneRun (inputs @ [x]) = laneStep (laneRun inputs) x"
  by (simp add: laneRun_def)

lemma getLane_enqueue:
  "getLane k (laneStep lanes (Enqueue k' task))
     = (if k' = k then enqueue task (getLane k lanes) else getLane k lanes)"
  by (simp add: runParallel_def getLane_def)

lemma getLane_settle:
  "getLane k (laneStep lanes (Settle k' ok))
     = (if k' = k \<and> lanes k \<noteq> None then settle ok (getLane k lanes) else getLane k lanes)"
  by (cases "lanes k'") (auto simp: getLane_def)

lemma laneRun_inv: "laneInv (getLane k (laneRun inputs)) (enqueuedOn k inputs)"
proof (induction inputs rule: rev_induct)
  case Nil
  show ?case by (simp add: laneRun_def getLane_def laneInv_new)
next
  case (snoc x inputs)
  show ?case
  proof (cases x)
    case (Enqueue k' task)
    then show ?thesis
      using laneInv_enqueue[OF snoc.IH, of task] snoc.IH
      by (simp add: laneRun_snoc getLane_enqueue enqueuedOn_snoc del: laneStep.simps)
  next
    case (Settle k' ok)
    then show ?thesis
      using laneInv_settle[OF snoc.IH, of ok] snoc.IH
      by (simp add: laneRun_snoc getLane_settle enqueuedOn_snoc del: laneStep.simps)
  qed
qed

text \<open>
  Claim C4. For every lane key and every sequence of enqueues and settlements, the
  tasks of the key are started in the order they were enqueued (the started tasks
  followed by the queue are the enqueued tasks), they settle in that order, and the
  log of the key has no overlap: a task is started only after the one before it has
  settled, with success or with failure. When no task of the key is in flight, all
  its enqueued tasks have settled, in the order they were enqueued.
\<close>

theorem lane_serial_order:
  "serial (trace (getLane k (laneRun inputs)))
   \<and> startedTasks (trace (getLane k (laneRun inputs))) @ queue (getLane k (laneRun inputs))
       = enqueuedOn k inputs
   \<and> prefix (settledTasks (trace (getLane k (laneRun inputs))))
        (startedTasks (trace (getLane k (laneRun inputs))))
   \<and> (awaiting (getLane k (laneRun inputs)) = None
        \<longrightarrow> settledTasks (trace (getLane k (laneRun inputs))) = enqueuedOn k inputs)"
proof -
  let ?l = "getLane k (laneRun inputs)"
  from laneRun_inv[of k inputs] obtain ds where
    d: "trace ?l = pairs ds @ map Started (inFlight (awaiting ?l))"
    "map fst ds @ inFlight (awaiting ?l) @ queue ?l = enqueuedOn k inputs"
    "awaiting ?l = None \<longrightarrow> queue ?l = []"
    unfolding laneInv_def by (elim exE conjE) (rule that)
  show ?thesis
  proof (cases "awaiting ?l")
    case None
    then show ?thesis
      using d by (simp add: inFlight_def serial_pairs started_pairs settled_pairs)
  next
    case (Some t)
    then show ?thesis
      using d by (simp add: inFlight_def serial_pairs started_pairs settled_pairs)
  qed
qed

theorem lane_serial_order_witness:
  "trace (getLane ''default'' (laneRun laneInputs))
     = [Started 1, Settled 1 True, Started 2, Settled 2 False, Started 3, Settled 3 True]
   \<and> enqueuedOn ''default'' laneInputs = [1, 2, 3]
   \<and> awaiting (getLane ''default'' (laneRun laneInputs)) = None
   \<and> serial (trace (getLane ''default'' (laneRun laneInputs)))
   \<and> settledTasks (trace (getLane ''default'' (laneRun laneInputs))) = [1, 2, 3]"
proof -
  have t: "trace (getLane ''default'' (laneRun laneInputs))
     = [Started 1, Settled 1 True, Started 2, Settled 2 False, Started 3, Settled 3 True]"
    and a: "awaiting (getLane ''default'' (laneRun laneInputs)) = None"
    by (simp_all add: laneInputs_def laneRun_def runParallel_def getLane_def enqueue_def
        process_def processLoop_def settle_def newLane_def)
  have e: "enqueuedOn ''default'' laneInputs = [1, 2, 3]"
    by (simp add: laneInputs_def)
  show ?thesis
    using lane_serial_order[of "''default''" laneInputs] t a e by simp
qed


end
